theory Spec2Isabelle
  imports Main
begin

section \<open>Errors\<close>

text \<open>
  Every \<^verbatim>\<open>throw new Error(...)\<close> of \<^verbatim>\<open>pve.js\<close> and \<^verbatim>\<open>app.js\<close> is a constructor;
  the constructors with a string argument carry the interpolated part of the message.
  \<open>PveAuthFailed\<close>, \<open>PveApiError\<close> and \<open>TransportError\<close> are raised by the HTTP and
  SSH transports.
\<close>

datatype error =
    PveAuthFailed string
  | PveApiError string
  | TaskFailed string
  | TaskTimeout
  | ConnMissing
  | NoScript
  | TransportError string
  | ScriptFailed string

definition MSG_PVE_AUTH :: string where
  "MSG_PVE_AUTH = ''PVE '' @ [CHR 0xE8, CHR 0xAA, CHR 0x8D, CHR 0xE8, CHR 0xAD, CHR 0x89, CHR 0xE5, CHR 0xA4, CHR 0xB1, CHR 0xE6, CHR 0x95, CHR 0x97] @ '': ''"

definition MSG_PVE_API :: string where
  "MSG_PVE_API = ''PVE API '' @ [CHR 0xE9, CHR 0x8C, CHR 0xAF, CHR 0xE8, CHR 0xAA, CHR 0xA4] @ '': ''"

definition MSG_TASK_FAILED :: string where
  "MSG_TASK_FAILED = [CHR 0xE4, CHR 0xBB, CHR 0xBB, CHR 0xE5, CHR 0x8B, CHR 0x99, CHR 0xE5, CHR 0xA4, CHR 0xB1, CHR 0xE6, CHR 0x95, CHR 0x97] @ '': ''"

definition MSG_TASK_TIMEOUT :: string where
  "MSG_TASK_TIMEOUT = [CHR 0xE4, CHR 0xBB, CHR 0xBB, CHR 0xE5, CHR 0x8B, CHR 0x99, CHR 0xE8, CHR 0xB6, CHR 0x85, CHR 0xE6, CHR 0x99, CHR 0x82]"

definition MSG_CONN_MISSING :: string where
  "MSG_CONN_MISSING = ''VM '' @ [CHR 0xE9, CHR 0x80, CHR 0xA3, CHR 0xE7, CHR 0xB7, CHR 0x9A, CHR 0xE8, CHR 0xB3, CHR 0x87, CHR 0xE8, CHR 0xA8, CHR 0x8A, CHR 0xE4, CHR 0xB8, CHR 0x8D, CHR 0xE5, CHR 0xAD, CHR 0x98, CHR 0xE5, CHR 0x9C, CHR 0xA8]"

definition MSG_NO_SCRIPT :: string where
  "MSG_NO_SCRIPT = [CHR 0xE6, CHR 0xB2, CHR 0x92, CHR 0xE6, CHR 0x9C, CHR 0x89, CHR 0xE5, CHR 0x8F, CHR 0xAF, CHR 0xE5, CHR 0x9F, CHR 0xB7, CHR 0xE8, CHR 0xA1, CHR 0x8C, CHR 0xE7, CHR 0x9A, CHR 0x84, CHR 0xE8, CHR 0x85, CHR 0xB3, CHR 0xE6, CHR 0x9C, CHR 0xAC, CHR 0xE5, CHR 0x85, CHR 0xA7, CHR 0xE5, CHR 0xAE, CHR 0xB9, CHR 0xE6, CHR 0x88, CHR 0x96, CHR 0xE8, CHR 0xB7, CHR 0xAF, CHR 0xE5, CHR 0xBE, CHR 0x91]"

definition MSG_SCRIPT_FAILED :: string where
  "MSG_SCRIPT_FAILED = [CHR 0xE8, CHR 0x85, CHR 0xB3, CHR 0xE6, CHR 0x9C, CHR 0xAC, CHR 0xE5, CHR 0x9F, CHR 0xB7, CHR 0xE8, CHR 0xA1, CHR 0x8C, CHR 0xE5, CHR 0xA4, CHR 0xB1, CHR 0xE6, CHR 0x95, CHR 0x97] @ '': ''"

text \<open>\<open>error.message\<close>: the literals of the source as UTF-8 bytes.\<close>

fun message :: "error \<Rightarrow> string" where
  "message (PveAuthFailed m) = MSG_PVE_AUTH @ m"
| "message (PveApiError m) = MSG_PVE_API @ m"
| "message (TaskFailed exitstatus) = MSG_TASK_FAILED @ exitstatus"
| "message TaskTimeout = MSG_TASK_TIMEOUT"
| "message ConnMissing = MSG_CONN_MISSING"
| "message NoScript = MSG_NO_SCRIPT"
| "message (TransportError m) = m"
| "message (ScriptFailed m) = MSG_SCRIPT_FAILED @ m"

section \<open>The hypervisor client (\<^verbatim>\<open>pve.js\<close>)\<close>

subsection \<open>The control plane as seen by the client\<close>

text \<open>
  The reply to \<^verbatim>\<open>GET .../tasks/{taskId}/status\<close>: either \<open>pveRequest\<close> throws (\<open>Inl\<close>
  with the upstream message; the caller supplies the ticket, so nothing else is thrown),
  or it returns \<open>status.data\<close> with its fields \<open>status\<close> and \<open>exitstatus\<close>. \<open>reply_ms\<close> is
  the time the request took on the clock read by \<open>Date.now()\<close>. \<open>pveRequest\<close> gives axios no
  timeout, so a status request may also never be answered: where a \<open>poll_reply option\<close>
  stands for the outcome of a request, \<open>None\<close> is that case.
\<close>

record task_status =
  status :: string
  exitstatus :: string

record poll_reply =
  reply_ms :: nat
  reply :: "string + task_status"

text \<open>The guest-agent part of \<^verbatim>\<open>GET .../qemu/{vmid}/status/current\<close>.\<close>

record ip_entry =
  ip_address_type :: string
  ip_address :: string

record iface =
  ip_addresses :: "ip_entry list option"

record vm_status =
  agent :: "iface list option option"
    \<comment> \<open>\<open>None\<close>: \<open>status.agent\<close> is falsy; \<open>Some None\<close>: no \<open>network-interfaces\<close>\<close>

text \<open>The mutating requests (all of them \<open>POST\<close>), by their path and body.\<close>

datatype pve_call =
    Clone nat string
  | Snapshot nat string
  | Rollback nat string
  | StartVM nat

text \<open>
  What the control plane answers. \<open>pve_post\<close> returns \<open>result.data\<close>, the task id;
  \<open>pve_task taskId k\<close> is the outcome of the \<open>k\<close>-th status poll of a task, \<open>None\<close> when
  that request is never answered.
\<close>

record pve =
  pve_ticket :: "error + unit"
  pve_nextid :: "error + nat"
  pve_post :: "pve_call \<Rightarrow> error + string"
  pve_task :: "string \<Rightarrow> nat \<Rightarrow> poll_reply option"
  pve_status_current :: "nat \<Rightarrow> error + vm_status"

subsection \<open>\<open>waitForTask\<close>\<close>

text \<open>
  The \<open>while (Date.now() - startTime < timeout)\<close> loop. \<open>elapsed\<close> is
  \<open>Date.now() - startTime\<close> at the loop test and \<open>k\<close> counts the polls made so far.
  An iteration costs the request's time and the 2000 ms sleep. The budget is tested at
  the head of the loop only, and nothing interrupts a request in flight. The result is
  \<open>None\<close> when the function never returns, which happens when a request it has sent is
  never answered; otherwise it carries what the function returns or throws, the
  elapsed time and the number of polls at that moment.
\<close>

function waitForTask_loop ::
  "(nat \<Rightarrow> poll_reply option) \<Rightarrow> nat \<Rightarrow> nat \<Rightarrow> nat \<Rightarrow> ((error + bool) \<times> nat \<times> nat) option" where
  "waitForTask_loop task timeout elapsed k =
     (if elapsed < timeout then
        (case task k of
           None \<Rightarrow> None
         | Some r \<Rightarrow>
             (case reply r of
                Inl m \<Rightarrow> Some (Inl (PveApiError m), elapsed + reply_ms r, Suc k)
              | Inr st \<Rightarrow>
                  if status st = ''stopped'' then
                    (if exitstatus st = ''OK'' then Some (Inr True, elapsed + reply_ms r, Suc k)
                     else Some (Inl (TaskFailed (exitstatus st)), elapsed + reply_ms r, Suc k))
                  else waitForTask_loop task timeout (elapsed + reply_ms r + 2000) (Suc k)))
      else Some (Inl TaskTimeout, elapsed, k))"
  by pat_completeness auto
termination
  by (relation "measure (\<lambda>(task, timeout, elapsed, k). timeout - elapsed)") auto

declare waitForTask_loop.simps [simp del]

definition DEFAULT_TIMEOUT :: nat where
  "DEFAULT_TIMEOUT = 300000"

text \<open>\<open>None\<close>: the call never returns.\<close>

definition waitForTask :: "(nat \<Rightarrow> poll_reply option) \<Rightarrow> nat \<Rightarrow> (error + bool) option" where
  "waitForTask task timeout = map_option fst (waitForTask_loop task timeout 0 0)"

text \<open>
  The vocabulary of the claim about \<open>waitForTask\<close>: how long a request is in flight, when
  the \<open>k\<close>-th poll is sent (time since the call, each earlier poll having cost its request
  and a 2000 ms sleep), and what the outcome of a poll reports.
\<close>

definition answer_ms :: "poll_reply option \<Rightarrow> nat" where
  "answer_ms r = (case r of None \<Rightarrow> 0 | Some a \<Rightarrow> reply_ms a)"

fun poll_start :: "(nat \<Rightarrow> poll_reply option) \<Rightarrow> nat \<Rightarrow> nat" where
  "poll_start task 0 = 0"
| "poll_start task (Suc k) = poll_start task k + answer_ms (task k) + 2000"

definition still_running :: "poll_reply option \<Rightarrow> bool" where
  "still_running r =
     (case r of None \<Rightarrow> False
      | Some a \<Rightarrow> (case reply a of Inl m \<Rightarrow> False | Inr st \<Rightarrow> status st \<noteq> ''stopped''))"

definition reports_ok :: "poll_reply option \<Rightarrow> bool" where
  "reports_ok r =
     (case r of None \<Rightarrow> False
      | Some a \<Rightarrow>
          (case reply a of Inl m \<Rightarrow> False
           | Inr st \<Rightarrow> status st = ''stopped'' \<and> exitstatus st = ''OK''))"

definition reports_failure :: "poll_reply option \<Rightarrow> string \<Rightarrow> bool" where
  "reports_failure r s =
     (case r of None \<Rightarrow> False
      | Some a \<Rightarrow>
          (case reply a of Inl m \<Rightarrow> False
           | Inr st \<Rightarrow> status st = ''stopped'' \<and> exitstatus st = s \<and> s \<noteq> ''OK''))"

subsection \<open>\<open>getVMStatus\<close> and \<open>getVMIP\<close>\<close>

definition getVMStatus :: "pve \<Rightarrow> nat \<Rightarrow> error + vm_status" where
  "getVMStatus p vmid =
     (case pve_ticket p of Inl e \<Rightarrow> Inl e | Inr _ \<Rightarrow> pve_status_current p vmid)"

definition startsWith :: "string \<Rightarrow> string \<Rightarrow> bool" where
  "startsWith s t = (take (length t) s = t)"

text \<open>The inner \<open>for (const ip of iface['ip-addresses'])\<close>.\<close>

fun scan_ips :: "ip_entry list \<Rightarrow> string option" where
  "scan_ips [] = None"
| "scan_ips (ip # ips) =
     (if ip_address_type ip = ''ipv4'' \<and> \<not> startsWith (ip_address ip) ''127.''
      then Some (ip_address ip) else scan_ips ips)"

text \<open>The outer \<open>for (const iface of interfaces)\<close>.\<close>

fun scan_ifaces :: "iface list \<Rightarrow> string option" where
  "scan_ifaces [] = None"
| "scan_ifaces (i # is) =
     (case ip_addresses i of
        None \<Rightarrow> scan_ifaces is
      | Some ips \<Rightarrow>
          if length ips > 0 then
            (case scan_ips ips of Some a \<Rightarrow> Some a | None \<Rightarrow> scan_ifaces is)
          else scan_ifaces is)"

text \<open>\<open>None\<close> is the \<open>null\<close> of the source; the \<open>catch\<close> turns every error into it.\<close>

definition getVMIP :: "pve \<Rightarrow> nat \<Rightarrow> string option" where
  "getVMIP p vmid =
     (case getVMStatus p vmid of
        Inl e \<Rightarrow> None
      | Inr st \<Rightarrow>
          (case agent st of
             Some (Some interfaces) \<Rightarrow> scan_ifaces interfaces
           | _ \<Rightarrow> None))"

text \<open>
  The claim's own words, for comparison: the first address, in the order the guest agent
  reports them, that is IPv4 and not in 127.0.0.0/8.
\<close>

definition reported_addresses :: "vm_status \<Rightarrow> ip_entry list" where
  "reported_addresses st =
     (case agent st of
        Some (Some interfaces) \<Rightarrow>
          concat (map (\<lambda>i. case ip_addresses i of None \<Rightarrow> [] | Some ips \<Rightarrow> ips) interfaces)
      | _ \<Rightarrow> [])"

definition non_loopback_ipv4 :: "ip_entry \<Rightarrow> bool" where
  "non_loopback_ipv4 ip = (ip_address_type ip = ''ipv4'' \<and> \<not> startsWith (ip_address ip) ''127.'')"

definition first_non_loopback_ipv4 :: "vm_status \<Rightarrow> string option" where
  "first_non_loopback_ipv4 st = map_option ip_address (find non_loopback_ipv4 (reported_addresses st))"

subsection \<open>The mutating calls\<close>

text \<open>
  Each of these functions returns its outcome together with the \<open>POST\<close> requests it sent,
  in order. The outcome is \<open>None\<close> when the function never returns because its
  \<open>waitForTask\<close> does not, \<open>Some (Inl e)\<close> when it throws and \<open>Some (Inr x)\<close> when it returns
  \<open>x\<close>. \<open>getPVETicket\<close> and \<open>pveRequest\<close> are the fields \<open>pve_ticket\<close>, \<open>pve_nextid\<close>
  and \<open>pve_post\<close> of the control plane; no caller passes a third argument to
  \<open>waitForTask\<close>, so the default budget applies.
\<close>

definition getNextVMID :: "pve \<Rightarrow> error + nat" where
  "getNextVMID p = (case pve_ticket p of Inl e \<Rightarrow> Inl e | Inr _ \<Rightarrow> pve_nextid p)"

text \<open>Decimal rendering of a number inside a template literal.\<close>

definition digit :: "nat \<Rightarrow> char" where
  "digit d = ''0123456789'' ! d"

fun show_nat :: "nat \<Rightarrow> string" where
  "show_nat n =
     (if n < 10 then [digit n] else show_nat (n div 10) @ [digit (n mod 10)])"

declare show_nat.simps [simp del]

text \<open>Submit one request and wait for its task: the common tail of the four calls.\<close>

definition post_and_wait :: "pve \<Rightarrow> pve_call \<Rightarrow> (error + string) option \<times> pve_call list" where
  "post_and_wait p c =
     (case pve_post p c of
        Inl e \<Rightarrow> (Some (Inl e), [c])
      | Inr taskId \<Rightarrow>
          (case waitForTask (pve_task p taskId) DEFAULT_TIMEOUT of
             None \<Rightarrow> (None, [c])
           | Some (Inl e) \<Rightarrow> (Some (Inl e), [c])
           | Some (Inr _) \<Rightarrow> (Some (Inr taskId), [c])))"

text \<open>\<open>vmid || await getNextVMID()\<close>: \<open>null\<close> and \<open>0\<close> are falsy; likewise the name.\<close>

definition cloneVM ::
  "pve \<Rightarrow> nat option \<Rightarrow> string \<Rightarrow> (error + nat \<times> string) option \<times> pve_call list" where
  "cloneVM p vmid vmName =
     (case pve_ticket p of
        Inl e \<Rightarrow> (Some (Inl e), [])
      | Inr _ \<Rightarrow>
          (case (case vmid of Some v \<Rightarrow> if v \<noteq> 0 then Inr v else getNextVMID p
                            | None \<Rightarrow> getNextVMID p) of
             Inl e \<Rightarrow> (Some (Inl e), [])
           | Inr newVmid \<Rightarrow>
               (case post_and_wait p
                       (Clone newVmid (if vmName \<noteq> [] then vmName
                                       else ''student-vm-'' @ show_nat newVmid)) of
                  (None, calls) \<Rightarrow> (None, calls)
                | (Some (Inl e), calls) \<Rightarrow> (Some (Inl e), calls)
                | (Some (Inr taskId), calls) \<Rightarrow> (Some (Inr (newVmid, taskId)), calls))))"

definition createSnapshot ::
  "pve \<Rightarrow> nat \<Rightarrow> string \<Rightarrow> (error + string) option \<times> pve_call list" where
  "createSnapshot p vmid snapshotName =
     (case pve_ticket p of
        Inl e \<Rightarrow> (Some (Inl e), [])
      | Inr _ \<Rightarrow> post_and_wait p (Snapshot vmid snapshotName))"

definition rollbackToSnapshot ::
  "pve \<Rightarrow> nat \<Rightarrow> string \<Rightarrow> (error + string) option \<times> pve_call list" where
  "rollbackToSnapshot p vmid snapshotName =
     (case pve_ticket p of
        Inl e \<Rightarrow> (Some (Inl e), [])
      | Inr _ \<Rightarrow> post_and_wait p (Rollback vmid snapshotName))"

definition startVM :: "pve \<Rightarrow> nat \<Rightarrow> (error + string) option \<times> pve_call list" where
  "startVM p vmid =
     (case pve_ticket p of
        Inl e \<Rightarrow> (Some (Inl e), [])
      | Inr _ \<Rightarrow> post_and_wait p (StartVM vmid))"

section \<open>The remote script executor (\<open>executeScript\<close> of \<^verbatim>\<open>app.js\<close>)\<close>

record ssh_conn =
  host :: string
  port :: nat
  username :: string
  privateKeyPath :: string

text \<open>
  Modelled from the spec: \<^verbatim>\<open>ssh.js\<close> is not among the sources. \<open>runSSH\<close> opens a
  connection, runs one command and returns exit code, stdout and stderr, or rejects on a
  transport failure. It is a parameter of everything below.
\<close>

record ssh_result =
  code :: int
  stdout :: string
  stderr :: string

type_synonym ssh = "ssh_conn \<Rightarrow> string \<Rightarrow> error + ssh_result"

text \<open>JavaScript truthiness of a nullable string, and its value with \<open>null\<close> as \<open>''\<close>.\<close>

definition truthy :: "string option \<Rightarrow> bool" where
  "truthy s = (case s of None \<Rightarrow> False | Some x \<Rightarrow> x \<noteq> [])"

definition str :: "string option \<Rightarrow> string" where
  "str s = (case s of None \<Rightarrow> [] | Some x \<Rightarrow> x)"

definition NL :: string where
  "NL = [CHR 0x0A]"

definition tempPath :: "string \<Rightarrow> nat \<Rightarrow> string" where
  "tempPath scriptType now = ''/tmp/'' @ scriptType @ ''_'' @ show_nat now @ ''.sh''"

definition writeCmd :: "string \<Rightarrow> string \<Rightarrow> string" where
  "writeCmd path scriptContent =
     ''cat > '' @ path @ '' << '' @ [CHR 0x27] @ ''EOFSCRIPT'' @ [CHR 0x27] @ NL
       @ scriptContent @ NL @ ''EOFSCRIPT''"

definition chmodCmd :: "string \<Rightarrow> string" where
  "chmodCmd path = ''chmod +x '' @ path"

definition sudoCmd :: "string \<Rightarrow> string" where
  "sudoCmd path = ''sudo '' @ path"

definition rmCmd :: "string \<Rightarrow> string" where
  "rmCmd path = ''rm -f '' @ path"

text \<open>
  The body of the \<open>try\<close>. The second component lists the commands handed to \<open>runSSH\<close>, in
  order; the result of the \<open>rm -f\<close> is dropped, as \<open>.catch(() => {})\<close> does.
\<close>

definition executeScript_try ::
  "ssh \<Rightarrow> nat \<Rightarrow> ssh_conn \<Rightarrow> string option \<Rightarrow> string option \<Rightarrow> string
     \<Rightarrow> (error + ssh_result) \<times> string list" where
  "executeScript_try run now conn scriptContent scriptPath scriptType =
     (if truthy scriptContent then
        (let path = tempPath scriptType now;
             w = writeCmd path (str scriptContent)
         in case run conn w of
              Inl e \<Rightarrow> (Inl e, [w])
            | Inr _ \<Rightarrow>
                (case run conn (chmodCmd path) of
                   Inl e \<Rightarrow> (Inl e, [w, chmodCmd path])
                 | Inr _ \<Rightarrow>
                     (case run conn (sudoCmd path) of
                        Inl e \<Rightarrow> (Inl e, [w, chmodCmd path, sudoCmd path])
                      | Inr result \<Rightarrow>
                          (Inr result, [w, chmodCmd path, sudoCmd path, rmCmd path]))))
      else if truthy scriptPath then
        (run conn (sudoCmd (str scriptPath)), [sudoCmd (str scriptPath)])
      else (Inl NoScript, []))"

text \<open>\<open>now\<close> is the value \<open>Date.now()\<close> returns during the call.\<close>

definition executeScript ::
  "ssh \<Rightarrow> nat \<Rightarrow> ssh_conn option \<Rightarrow> string option \<Rightarrow> string option \<Rightarrow> string
     \<Rightarrow> (error + ssh_result) \<times> string list" where
  "executeScript run now conn scriptContent scriptPath scriptType =
     (case conn of
        None \<Rightarrow> (Inl ConnMissing, [])
      | Some c \<Rightarrow>
          (case executeScript_try run now c scriptContent scriptPath scriptType of
             (Inl e, cmds) \<Rightarrow> (Inl (ScriptFailed (message e)), cmds)
           | (Inr r, cmds) \<Rightarrow> (Inr r, cmds)))"

text \<open>
  What a POSIX shell on the target makes of a here-document with a quoted delimiter: the
  lines after the first one, up to the first line that is the delimiter itself, taken
  literally. It is the yardstick for the transfer of the script content.
\<close>

fun split_lines_acc :: "string \<Rightarrow> string \<Rightarrow> string list" where
  "split_lines_acc acc [] = [rev acc]"
| "split_lines_acc acc (c # cs) =
     (if c = CHR 0x0A then rev acc # split_lines_acc [] cs else split_lines_acc (c # acc) cs)"

definition split_lines :: "string \<Rightarrow> string list" where
  "split_lines s = split_lines_acc [] s"

definition heredoc_body :: "string \<Rightarrow> string list" where
  "heredoc_body cmd = takeWhile (\<lambda>l. l \<noteq> ''EOFSCRIPT'') (tl (split_lines cmd))"

section \<open>Persistence\<close>

text \<open>
  Modelled from the spec: \<^verbatim>\<open>db.js\<close> is not among the sources. What follows is the
  interface \<open>dbHelpers\<close> that \<^verbatim>\<open>app.js\<close> calls, over tables kept as lists of rows in
  insertion order. No table enforces a uniqueness constraint: whatever uniqueness holds
  is the handlers' doing.
\<close>

record user =
  u_id :: nat
  u_role :: string
  u_username :: string

record question =
  q_id :: nat
  ordering :: nat
  enabled :: bool
  fault_id :: string
  fault_script :: "string option"
  fault_path :: "string option"
  check_script :: "string option"
  check_path :: "string option"

record vm_assignment =
  va_student_id :: nat
  va_vmid :: nat
  vm_name :: string
  vm_ip :: "string option"
  snapshot_name :: string

record progress =
  current_qid :: "nat option"
  started :: bool

record attempt =
  at_student_id :: nat
  at_question_id :: nat
  passed :: bool
  at_stdout :: string
  at_stderr :: string
  at_output :: string

record db =
  users :: "user list"
  questions :: "question list"
  vm_assignments :: "vm_assignment list"
  progress_rows :: "nat \<Rightarrow> progress"
  attempts :: "attempt list"

definition getVmAssignment :: "db \<Rightarrow> nat \<Rightarrow> vm_assignment option" where
  "getVmAssignment d studentId = find (\<lambda>a. va_student_id a = studentId) (vm_assignments d)"

definition createVmAssignment ::
  "db \<Rightarrow> nat \<Rightarrow> nat \<Rightarrow> string \<Rightarrow> string option \<Rightarrow> string \<Rightarrow> db" where
  "createVmAssignment d studentId vmid name ip snapshotName =
     d\<lparr>vm_assignments := vm_assignments d @
          [\<lparr>va_student_id = studentId, va_vmid = vmid, vm_name = name, vm_ip = ip,
            snapshot_name = snapshotName\<rparr>]\<rparr>"

definition getProgress :: "db \<Rightarrow> nat \<Rightarrow> progress" where
  "getProgress d studentId = progress_rows d studentId"

definition updateProgress :: "db \<Rightarrow> nat \<Rightarrow> nat \<Rightarrow> bool \<Rightarrow> db" where
  "updateProgress d studentId qid st =
     d\<lparr>progress_rows := (progress_rows d)(studentId := \<lparr>current_qid = Some qid, started = st\<rparr>)\<rparr>"

definition getQuestions :: "db \<Rightarrow> bool \<Rightarrow> question list" where
  "getQuestions d onlyEnabled =
     sort_key ordering (filter (\<lambda>q. enabled q \<or> \<not> onlyEnabled) (questions d))"

definition getQuestion :: "db \<Rightarrow> nat \<Rightarrow> question option" where
  "getQuestion d qid = find (\<lambda>q. q_id q = qid) (questions d)"

definition recordAttempt ::
  "db \<Rightarrow> nat \<Rightarrow> nat \<Rightarrow> bool \<Rightarrow> string \<Rightarrow> string \<Rightarrow> string \<Rightarrow> db" where
  "recordAttempt d studentId qid p out err output =
     d\<lparr>attempts := attempts d @
          [\<lparr>at_student_id = studentId, at_question_id = qid, passed = p, at_stdout = out,
            at_stderr = err, at_output = output\<rparr>]\<rparr>"

text \<open>The status of a pair is that of its latest attempt.\<close>

definition getQuestionStatus :: "db \<Rightarrow> nat \<Rightarrow> nat option \<Rightarrow> string" where
  "getQuestionStatus d studentId qid =
     (case rev (filter (\<lambda>a. at_student_id a = studentId \<and> Some (at_question_id a) = qid)
                  (attempts d)) of
        [] \<Rightarrow> ''untried''
      | a # _ \<Rightarrow> if passed a then ''passed'' else ''failed'')"

text \<open>
  \<open>getOrCreateUser\<close>: the row of that name if there is one, else a new row with the given
  role and the next free id.
\<close>

definition getOrCreateUser :: "db \<Rightarrow> string \<Rightarrow> string \<Rightarrow> user \<times> db" where
  "getOrCreateUser d name r =
     (case find (\<lambda>u. u_username u = name) (users d) of
        Some u \<Rightarrow> (u, d)
      | None \<Rightarrow>
          (let u = \<lparr>u_id = Suc (fold max (map u_id (users d)) 0), u_role = r, u_username = name\<rparr>
           in (u, d\<lparr>users := users d @ [u]\<rparr>)))"

section \<open>The serialized queue\<close>

text \<open>
  Modelled from the spec: \<^verbatim>\<open>queue.js\<close> is not among the sources. \<open>pveQueue.add\<close> admits a
  unit of work and resolves with the unit's own result or error, or never when the unit
  never settles. Calls are sequential here, so the unit runs at once; the queue keeps,
  per admitted unit, the mutating requests that unit sent.
\<close>

definition pveQueue_add ::
  "pve_call list list \<Rightarrow> 'a \<times> pve_call list \<Rightarrow> 'a \<times> pve_call list list" where
  "pveQueue_add units unit_run = (fst unit_run, units @ [snd unit_run])"

section \<open>The session state machine (\<^verbatim>\<open>app.js\<close>)\<close>

subsection \<open>Environment, state and replies\<close>

record env =
  hypervisor :: pve
  run_ssh :: ssh
  date_now :: nat
  VM_SSH_PORT :: nat
  VM_SSH_USER :: "string option"
  VM_SSH_KEY_PATH :: "string option"
  VM_IP_TEMPLATE :: "string option"

record world =
  store :: db
  queue_units :: "pve_call list list"
  ssh_log :: "(ssh_conn \<times> string) list"

text \<open>
  The error replies \<open>{ok: false, error}\<close>, one constructor per site; \<open>Internal\<close> is the
  outer \<open>catch\<close> with \<open>error.message\<close>.
\<close>

datatype failure =
    NotLoggedIn
  | Forbidden
  | MissingUsername
  | EmptyQuestionBank
  | QuestionNotFound
  | NotStarted
  | NotPassed
  | VmUnassigned
  | VerifyFailed string
  | Internal string

fun http_status :: "failure \<Rightarrow> nat" where
  "http_status NotLoggedIn = 401"
| "http_status Forbidden = 403"
| "http_status MissingUsername = 400"
| "http_status EmptyQuestionBank = 500"
| "http_status QuestionNotFound = 404"
| "http_status NotStarted = 400"
| "http_status NotPassed = 400"
| "http_status VmUnassigned = 500"
| "http_status (VerifyFailed m) = 500"
| "http_status (Internal m) = 500"

text \<open>
  The replies: \<open>StartReply current_qid injected inject_output vmid vm_ip\<close>,
  \<open>VerifyReply passed output\<close>, \<open>NextDone\<close> for \<open>{ok: true, done: true}\<close>,
  \<open>NextReply current_qid injected inject_output\<close> and \<open>LoginReply user\<close>. Where a handler
  awaits the hypervisor its reply is a \<open>response option\<close>, \<open>None\<close> when that wait never ends
  and the request is left unanswered; the state given with it is the one reached by then.
\<close>

datatype response =
    Failure failure
  | StartReply nat string string nat "string option"
  | VerifyReply bool string
  | NextDone
  | NextReply nat string string
  | LoginReply user

definition MSG_INJECT_FAILED :: string where
  "MSG_INJECT_FAILED = [CHR 0xE6, CHR 0xB3, CHR 0xA8, CHR 0xE5, CHR 0x85, CHR 0xA5, CHR 0xE5, CHR 0xA4, CHR 0xB1, CHR 0xE6, CHR 0x95, CHR 0x97] @ '': ''"

definition MSG_WARN_START :: string where
  "MSG_WARN_START = ''['' @ [CHR 0xE8, CHR 0xAD, CHR 0xA6, CHR 0xE5, CHR 0x91, CHR 0x8A] @ ''] '' @ [CHR 0xE7, CHR 0x84, CHR 0xA1, CHR 0xE6, CHR 0xB3, CHR 0x95, CHR 0xE9, CHR 0x80, CHR 0xA3, CHR 0xE7, CHR 0xB7, CHR 0x9A, CHR 0xE5, CHR 0x88, CHR 0xB0] @ '' VM'' @ [CHR 0xEF, CHR 0xBC, CHR 0x8C, CHR 0xE8, CHR 0xAB, CHR 0x8B, CHR 0xE6, CHR 0xAA, CHR 0xA2, CHR 0xE6, CHR 0x9F, CHR 0xA5] @ '' VM_SSH_KEY_PATH '' @ [CHR 0xE5, CHR 0x92, CHR 0x8C] @ '' VM IP '' @ [CHR 0xE9, CHR 0x85, CHR 0x8D, CHR 0xE7, CHR 0xBD, CHR 0xAE]"

definition MSG_WARN_NEXT :: string where
  "MSG_WARN_NEXT = ''['' @ [CHR 0xE8, CHR 0xAD, CHR 0xA6, CHR 0xE5, CHR 0x91, CHR 0x8A] @ ''] '' @ [CHR 0xE7, CHR 0x84, CHR 0xA1, CHR 0xE6, CHR 0xB3, CHR 0x95, CHR 0xE9, CHR 0x80, CHR 0xA3, CHR 0xE7, CHR 0xB7, CHR 0x9A, CHR 0xE5, CHR 0x88, CHR 0xB0] @ '' VM''"

definition MSG_DRY_RUN_ATTEMPT :: string where
  "MSG_DRY_RUN_ATTEMPT = ''[dry-run] '' @ [CHR 0xE6, CHR 0x9C, CHR 0xAA, CHR 0xE8, CHR 0xA8, CHR 0xAD, CHR 0xE5, CHR 0xAE, CHR 0x9A] @ '' VM '' @ [CHR 0xE9, CHR 0x80, CHR 0xA3, CHR 0xE7, CHR 0xB7, CHR 0x9A]"

definition MSG_DRY_RUN_REPLY :: string where
  "MSG_DRY_RUN_REPLY = ''[dry-run] '' @ [CHR 0xE6, CHR 0x9C, CHR 0xAA, CHR 0xE8, CHR 0xA8, CHR 0xAD, CHR 0xE5, CHR 0xAE, CHR 0x9A] @ '' VM '' @ [CHR 0xE9, CHR 0x80, CHR 0xA3, CHR 0xE7, CHR 0xB7, CHR 0x9A, CHR 0xEF, CHR 0xBC, CHR 0x8C, CHR 0xE6, CHR 0xA8, CHR 0xA1, CHR 0xE6, CHR 0x93, CHR 0xAC] @ '' fail'' @ [CHR 0xE3, CHR 0x80, CHR 0x82]"

definition MSG_NULL_VMID :: string where
  "MSG_NULL_VMID = ''Cannot read properties of null (reading '' @ [CHR 0x27] @ ''vmid'' @ [CHR 0x27] @ '')''"

subsection \<open>Small JavaScript helpers\<close>

text \<open>
  \<open>String.prototype.trim\<close> removes, at both ends, every code point that ECMAScript counts
  as \<open>WhiteSpace\<close> or \<open>LineTerminator\<close>: TAB, LF, VT, FF, CR, SP, U+00A0, U+1680, U+2000 to
  U+200A, U+2028, U+2029, U+202F, U+205F, U+3000 and U+FEFF. Strings are the UTF-8 bytes
  of the text, so each code point is listed by its encoding.
\<close>

definition WHITE_SPACE :: "string list" where
  "WHITE_SPACE =
     [[CHR 0x09], [CHR 0x0A], [CHR 0x0B], [CHR 0x0C], [CHR 0x0D], [CHR 0x20],
      [CHR 0xC2, CHR 0xA0],
      [CHR 0xE1, CHR 0x9A, CHR 0x80],
      [CHR 0xE2, CHR 0x80, CHR 0x80], [CHR 0xE2, CHR 0x80, CHR 0x81],
      [CHR 0xE2, CHR 0x80, CHR 0x82], [CHR 0xE2, CHR 0x80, CHR 0x83],
      [CHR 0xE2, CHR 0x80, CHR 0x84], [CHR 0xE2, CHR 0x80, CHR 0x85],
      [CHR 0xE2, CHR 0x80, CHR 0x86], [CHR 0xE2, CHR 0x80, CHR 0x87],
      [CHR 0xE2, CHR 0x80, CHR 0x88], [CHR 0xE2, CHR 0x80, CHR 0x89],
      [CHR 0xE2, CHR 0x80, CHR 0x8A],
      [CHR 0xE2, CHR 0x80, CHR 0xA8], [CHR 0xE2, CHR 0x80, CHR 0xA9],
      [CHR 0xE2, CHR 0x80, CHR 0xAF],
      [CHR 0xE2, CHR 0x81, CHR 0x9F],
      [CHR 0xE3, CHR 0x80, CHR 0x80],
      [CHR 0xEF, CHR 0xBB, CHR 0xBF]]"

text \<open>Remove from the front of \<open>s\<close> every leading occurrence of one of the sequences \<open>ps\<close>.\<close>

function strip :: "string list \<Rightarrow> string \<Rightarrow> string" where
  "strip ps s =
     (case find (\<lambda>p. p \<noteq> [] \<and> startsWith s p) ps of
        None \<Rightarrow> s
      | Some p \<Rightarrow> strip ps (drop (length p) s))"
  by pat_completeness auto
termination
proof (relation "measure (\<lambda>(ps, s). length s)")
  show "wf (measure (\<lambda>(ps, s). length s))" by simp
next
  fix ps :: "string list" and s p :: string
  assume "find (\<lambda>p. p \<noteq> [] \<and> startsWith s p) ps = Some p"
  then have "p \<noteq> []" and "take (length p) s = p"
    by (auto simp: find_Some_iff startsWith_def)
  then have "s \<noteq> []" by auto
  with \<open>p \<noteq> []\<close> show "((ps, drop (length p) s), (ps, s)) \<in> measure (\<lambda>(ps, s). length s)"
    by simp
qed

declare strip.simps [simp del]

definition trimStart :: "string \<Rightarrow> string" where
  "trimStart s = strip WHITE_SPACE s"

definition trimEnd :: "string \<Rightarrow> string" where
  "trimEnd s = rev (strip (map rev WHITE_SPACE) (rev s))"

definition trim :: "string \<Rightarrow> string" where
  "trim s = trimEnd (trimStart s)"

text \<open>\<open>(r.stdout || r.stderr || '').trim()\<close>\<close>

definition shown_output :: "ssh_result \<Rightarrow> string" where
  "shown_output r = trim (if stdout r \<noteq> [] then stdout r else stderr r)"

text \<open>\<open>s.includes(t)\<close>\<close>

fun includes_str :: "string \<Rightarrow> string \<Rightarrow> bool" where
  "includes_str [] t = (t = [])"
| "includes_str (c # cs) t = (startsWith (c # cs) t \<or> includes_str cs t)"

text \<open>\<open>s.replace(pat, rep)\<close> with a string pattern: the first occurrence only.\<close>

fun replace_first :: "string \<Rightarrow> string \<Rightarrow> string \<Rightarrow> string" where
  "replace_first [] pat rep = (if pat = [] then rep else [])"
| "replace_first (c # cs) pat rep =
     (if startsWith (c # cs) pat then rep @ drop (length pat) (c # cs)
      else c # replace_first cs pat rep)"

text \<open>\<open>xs.findIndex(P)\<close>, \<open>-1\<close> when nothing matches, and \<open>xs[i]\<close>, \<open>undefined\<close> out of range.\<close>

fun findIndex :: "('a \<Rightarrow> bool) \<Rightarrow> 'a list \<Rightarrow> int" where
  "findIndex P [] = -1"
| "findIndex P (x # xs) =
     (if P x then 0 else (let i = findIndex P xs in if i < 0 then -1 else i + 1))"

definition at_index :: "'a list \<Rightarrow> int \<Rightarrow> 'a option" where
  "at_index xs i = (if 0 \<le> i \<and> i < int (length xs) then Some (xs ! nat i) else None)"

subsection \<open>Middleware and connection lookup\<close>

text \<open>\<open>requireAuth\<close> followed by \<open>requireRole(role)\<close>.\<close>

definition authorize :: "string \<Rightarrow> user option \<Rightarrow> failure + user" where
  "authorize r session_user =
     (case session_user of
        None \<Rightarrow> Inl NotLoggedIn
      | Some u \<Rightarrow> if u_role u = r then Inr u else Inl Forbidden)"

definition getStudentVmConn :: "env \<Rightarrow> db \<Rightarrow> nat \<Rightarrow> ssh_conn option" where
  "getStudentVmConn ev d studentId =
     (case getVmAssignment d studentId of
        None \<Rightarrow> None
      | Some assignment \<Rightarrow>
          if \<not> truthy (vm_ip assignment) then None
          else if \<not> truthy (VM_SSH_KEY_PATH ev) then None
          else Some \<lparr>host = str (vm_ip assignment), port = VM_SSH_PORT ev,
                      username = (if truthy (VM_SSH_USER ev) then str (VM_SSH_USER ev)
                                  else ''trainer''),
                      privateKeyPath = str (VM_SSH_KEY_PATH ev)\<rparr>)"

subsection \<open>Fault injection\<close>

text \<open>
  The block \<open>const conn = await getStudentVmConn(studentId); ... if (conn) { try ... }\<close>
  that \<open>start\<close> and \<open>next\<close> share but for the warning text: it yields \<open>injectOutput\<close> and
  the commands sent to the VM.
\<close>

definition inject_fault ::
  "env \<Rightarrow> db \<Rightarrow> nat \<Rightarrow> question \<Rightarrow> string \<Rightarrow> string \<times> (ssh_conn \<times> string) list" where
  "inject_fault ev d studentId q warning =
     (case getStudentVmConn ev d studentId of
        None \<Rightarrow> (warning, [])
      | Some conn \<Rightarrow>
          (case executeScript (run_ssh ev) (date_now ev) (Some conn)
                  (fault_script q) (fault_path q) ''fault'' of
             (Inr r, cmds) \<Rightarrow> (shown_output r, map (Pair conn) cmds)
           | (Inl e, cmds) \<Rightarrow> (MSG_INJECT_FAILED @ message e, map (Pair conn) cmds)))"

subsection \<open>\<^verbatim>\<open>POST /api/student/start\<close>\<close>

text \<open>The unit of work handed to the queue when the student has no VM yet.\<close>

definition provision_unit ::
  "env \<Rightarrow> nat \<Rightarrow> string \<Rightarrow> db \<Rightarrow> (error + db) option \<times> pve_call list" where
  "provision_unit ev studentId uname d =
     (let name = ''student-'' @ uname @ ''-'' @ show_nat studentId
      in case cloneVM (hypervisor ev) None name of
           (None, c1) \<Rightarrow> (None, c1)
         | (Some (Inl e), c1) \<Rightarrow> (Some (Inl e), c1)
         | (Some (Inr (newVmid, taskId)), c1) \<Rightarrow>
             (case startVM (hypervisor ev) newVmid of
                (None, c2) \<Rightarrow> (None, c1 @ c2)
              | (Some (Inl e), c2) \<Rightarrow> (Some (Inl e), c1 @ c2)
              | (Some (Inr _), c2) \<Rightarrow>
                  (let found = getVMIP (hypervisor ev) newVmid;
                       vmIp = (if truthy found then found
                               else if truthy (VM_IP_TEMPLATE ev)
                                    then Some (replace_first (str (VM_IP_TEMPLATE ev))
                                                 ''{vmid}'' (show_nat newVmid))
                                    else None)
                   in case createSnapshot (hypervisor ev) newVmid ''clean_start'' of
                        (None, c3) \<Rightarrow> (None, c1 @ c2 @ c3)
                      | (Some (Inl e), c3) \<Rightarrow> (Some (Inl e), c1 @ c2 @ c3)
                      | (Some (Inr _), c3) \<Rightarrow>
                          (Some (Inr (createVmAssignment d studentId newVmid name vmIp
                                        ''clean_start'')),
                           c1 @ c2 @ c3))))"

text \<open>
  The first half of the handler, up to \<open>assignment = await dbHelpers.getVmAssignment\<close>.
  \<open>Inr\<close>: the assignment the rest of the handler works with, and the state. \<open>Inl\<close>: the
  handler ends here, with an error reply or, the queue unit never settling, with none.
\<close>

definition start_assign ::
  "env \<Rightarrow> user \<Rightarrow> world \<Rightarrow> failure option \<times> world + vm_assignment option \<times> world" where
  "start_assign ev u w =
     (case getVmAssignment (store w) (u_id u) of
        Some assignment \<Rightarrow> Inr (Some assignment, w)
      | None \<Rightarrow>
          (case getQuestions (store w) True of
             [] \<Rightarrow> Inl (Some EmptyQuestionBank, w)
           | first # _ \<Rightarrow>
               (case pveQueue_add (queue_units w)
                       (provision_unit ev (u_id u) (u_username u) (store w)) of
                  (None, units) \<Rightarrow> Inl (None, w\<lparr>queue_units := units\<rparr>)
                | (Some (Inl e), units) \<Rightarrow>
                    Inl (Some (Internal (message e)), w\<lparr>queue_units := units\<rparr>)
                | (Some (Inr d), units) \<Rightarrow>
                    Inr (getVmAssignment d (u_id u), w\<lparr>store := d, queue_units := units\<rparr>))))"

definition student_start :: "env \<Rightarrow> user option \<Rightarrow> world \<Rightarrow> response option \<times> world" where
  "student_start ev session_user w =
     (case authorize ''student'' session_user of
        Inl f \<Rightarrow> (Some (Failure f), w)
      | Inr u \<Rightarrow>
          (case start_assign ev u w of
             Inl (f, w1) \<Rightarrow> (map_option Failure f, w1)
           | Inr (assignment, w1) \<Rightarrow>
               (case getQuestions (store w1) True of
                  [] \<Rightarrow> (Some (Failure EmptyQuestionBank), w1)
                | first # _ \<Rightarrow>
                    (let d2 = updateProgress (store w1) (u_id u) (q_id first) True;
                         inj = inject_fault ev d2 (u_id u) first MSG_WARN_START;
                         w2 = w1\<lparr>store := d2, ssh_log := ssh_log w1 @ snd inj\<rparr>
                     in case assignment of
                          None \<Rightarrow> (Some (Failure (Internal MSG_NULL_VMID)), w2)
                        | Some a \<Rightarrow>
                            (Some (StartReply (q_id first) (fault_id first) (fst inj)
                                     (va_vmid a) (vm_ip a)), w2)))))"

subsection \<open>\<^verbatim>\<open>POST /api/student/verify\<close>\<close>

text \<open>\<open>qid\<close> is \<open>parseInt(question_id, 10)\<close>.\<close>

definition student_verify :: "env \<Rightarrow> user option \<Rightarrow> nat \<Rightarrow> world \<Rightarrow> response \<times> world" where
  "student_verify ev session_user qid w =
     (case authorize ''student'' session_user of
        Inl f \<Rightarrow> (Failure f, w)
      | Inr u \<Rightarrow>
          (case getQuestion (store w) qid of
             None \<Rightarrow> (Failure QuestionNotFound, w)
           | Some q \<Rightarrow>
               (case getStudentVmConn ev (store w) (u_id u) of
                  None \<Rightarrow>
                    (VerifyReply False MSG_DRY_RUN_REPLY,
                     w\<lparr>store := recordAttempt (store w) (u_id u) qid False [] []
                                  MSG_DRY_RUN_ATTEMPT\<rparr>)
                | Some conn \<Rightarrow>
                    (case executeScript (run_ssh ev) (date_now ev) (Some conn)
                            (check_script q) (check_path q) ''check'' of
                       (Inr r, cmds) \<Rightarrow>
                         (VerifyReply (code r = 0) (shown_output r),
                          w\<lparr>store := recordAttempt (store w) (u_id u) qid (code r = 0)
                                       (stdout r) (stderr r) (shown_output r),
                            ssh_log := ssh_log w @ map (Pair conn) cmds\<rparr>)
                     | (Inl e, cmds) \<Rightarrow>
                         (Failure (VerifyFailed (message e)),
                          w\<lparr>store := recordAttempt (store w) (u_id u) qid False []
                                       (message e) [],
                            ssh_log := ssh_log w @ map (Pair conn) cmds\<rparr>)))))"

subsection \<open>\<^verbatim>\<open>POST /api/student/next\<close>\<close>

definition student_next :: "env \<Rightarrow> user option \<Rightarrow> world \<Rightarrow> response option \<times> world" where
  "student_next ev session_user w =
     (case authorize ''student'' session_user of
        Inl f \<Rightarrow> (Some (Failure f), w)
      | Inr u \<Rightarrow>
          (let prog = getProgress (store w) (u_id u)
           in if \<not> started prog then (Some (Failure NotStarted), w)
              else
                (let qs = getQuestions (store w) True;
                     currentIdx = findIndex (\<lambda>q. Some (q_id q) = current_qid prog) qs
                 in case at_index qs (currentIdx + 1) of
                      None \<Rightarrow> (Some NextDone, w)
                    | Some nxt \<Rightarrow>
                        if getQuestionStatus (store w) (u_id u) (current_qid prog) \<noteq> ''passed''
                        then (Some (Failure NotPassed), w)
                        else
                          (case getVmAssignment (store w) (u_id u) of
                             None \<Rightarrow> (Some (Failure VmUnassigned), w)
                           | Some assignment \<Rightarrow>
                               (case pveQueue_add (queue_units w)
                                       (rollbackToSnapshot (hypervisor ev) (va_vmid assignment)
                                          (snapshot_name assignment)) of
                                  (None, units) \<Rightarrow> (None, w\<lparr>queue_units := units\<rparr>)
                                | (Some (Inl e), units) \<Rightarrow>
                                    (Some (Failure (Internal (message e))),
                                     w\<lparr>queue_units := units\<rparr>)
                                | (Some (Inr _), units) \<Rightarrow>
                                    (let d2 = updateProgress (store w) (u_id u) (q_id nxt) True;
                                         inj = inject_fault ev d2 (u_id u) nxt MSG_WARN_NEXT
                                     in (Some (NextReply (q_id nxt) (fault_id nxt) (fst inj)),
                                         w\<lparr>store := d2, queue_units := units,
                                           ssh_log := ssh_log w @ snd inj\<rparr>)))))))"

subsection \<open>\<^verbatim>\<open>POST /api/auth/login\<close>\<close>

definition role_for :: "string \<Rightarrow> string" where
  "role_for uname = (if includes_str uname ''teacher'' then ''teacher'' else ''student'')"

text \<open>The handler takes \<open>req.body.username\<close> and returns the reply, \<open>req.session.user\<close> and the tables.\<close>

definition auth_login ::
  "string option \<Rightarrow> user option \<Rightarrow> db \<Rightarrow> response \<times> user option \<times> db" where
  "auth_login body_username session_user d =
     (if \<not> truthy body_username then (Failure MissingUsername, session_user, d)
      else
        (case getOrCreateUser d (str body_username) (role_for (str body_username)) of
           (u, d') \<Rightarrow>
             (let su = \<lparr>u_id = u_id u, u_role = u_role u, u_username = u_username u\<rparr>
              in (LoginReply su, Some su, d'))))"

section \<open>Auxiliary notions and sample data\<close>

text \<open>
  \<open>decisive task T k0 k\<close>: the loop, entered before poll \<open>k0\<close>, reaches poll \<open>k\<close> and sends it,
  that is, the polls from \<open>k0\<close> on before it all said "running" and poll \<open>k\<close> starts inside
  the budget.
\<close>

definition decisive :: "(nat \<Rightarrow> poll_reply option) \<Rightarrow> nat \<Rightarrow> nat \<Rightarrow> nat \<Rightarrow> bool" where
  "decisive task T k0 k \<longleftrightarrow>
     k0 \<le> k \<and> (\<forall>j. k0 \<le> j \<and> j < k \<longrightarrow> still_running (task j)) \<and> poll_start task k < T"

text \<open>A task that is running at the first two polls and then stopped with the given exit status.\<close>

definition sample_task :: "string \<Rightarrow> nat \<Rightarrow> poll_reply option" where
  "sample_task exit k =
     (if k < 2 then Some \<lparr>reply_ms = 150, reply = Inr \<lparr>status = ''running'', exitstatus = []\<rparr>\<rparr>
      else Some \<lparr>reply_ms = 150, reply = Inr \<lparr>status = ''stopped'', exitstatus = exit\<rparr>\<rparr>)"

text \<open>
  A task whose first status request is answered after 5000 ms, with \<open>stopped\<close> and \<open>OK\<close>, and
  a task whose third status request is never answered.
\<close>

definition slow_task :: "nat \<Rightarrow> poll_reply option" where
  "slow_task k = Some \<lparr>reply_ms = 5000, reply = Inr \<lparr>status = ''stopped'', exitstatus = ''OK''\<rparr>\<rparr>"

definition stalled_task :: "nat \<Rightarrow> poll_reply option" where
  "stalled_task k =
     (if k < 2 then Some \<lparr>reply_ms = 150, reply = Inr \<lparr>status = ''running'', exitstatus = []\<rparr>\<rparr>
      else None)"

definition sample_status :: vm_status where
  "sample_status =
     \<lparr>agent = Some (Some
        [\<lparr>ip_addresses = Some [\<lparr>ip_address_type = ''ipv4'', ip_address = ''127.0.0.1''\<rparr>,
                               \<lparr>ip_address_type = ''ipv6'', ip_address = ''fe80::1''\<rparr>]\<rparr>,
         \<lparr>ip_addresses = None\<rparr>,
         \<lparr>ip_addresses = Some [\<lparr>ip_address_type = ''ipv4'', ip_address = ''10.0.0.5''\<rparr>,
                               \<lparr>ip_address_type = ''ipv4'', ip_address = ''10.0.0.6''\<rparr>]\<rparr>])\<rparr>"

definition sample_pve :: pve where
  "sample_pve =
     \<lparr>pve_ticket = Inr (), pve_nextid = Inr 101, pve_post = (\<lambda>c. Inr ''UPID:1''),
      pve_task = (\<lambda>taskId. sample_task ''OK''),
      pve_status_current = (\<lambda>vmid. Inr sample_status)\<rparr>"

text \<open>The same control plane, except that every task stalls as \<open>stalled_task\<close> does.\<close>

definition stalled_pve :: pve where
  "stalled_pve =
     \<lparr>pve_ticket = Inr (), pve_nextid = Inr 101, pve_post = (\<lambda>c. Inr ''UPID:1''),
      pve_task = (\<lambda>taskId. stalled_task),
      pve_status_current = (\<lambda>vmid. Inr sample_status)\<rparr>"

definition sample_conn :: ssh_conn where
  "sample_conn =
     \<lparr>host = ''10.0.0.5'', port = 22, username = ''trainer'',
      privateKeyPath = ''/home/app/.ssh/id_ed25519''\<rparr>"

text \<open>A target on which every command exits with 0, except that deleting a file fails in transit.\<close>

definition sample_ssh :: ssh where
  "sample_ssh conn cmd =
     (if startsWith cmd ''rm -f '' then Inl (TransportError ''connection lost'')
      else Inr \<lparr>code = 0, stdout = ''done'', stderr = []\<rparr>)"

definition sample_now :: nat where
  "sample_now = 1700000000000"

text \<open>
  Sequential use of the three student operations, each call with its own environment and
  made once the call before it has been answered; a call that is never answered ends the
  run.
\<close>

datatype call =
    CallStart env "user option"
  | CallVerify env "user option" nat
  | CallNext env "user option"

fun run_call :: "call \<Rightarrow> world \<Rightarrow> response option \<times> world" where
  "run_call (CallStart ev s) w = student_start ev s w"
| "run_call (CallVerify ev s qid) w =
     (case student_verify ev s qid w of (r, w') \<Rightarrow> (Some r, w'))"
| "run_call (CallNext ev s) w = student_next ev s w"

fun run_calls :: "call list \<Rightarrow> world \<Rightarrow> world" where
  "run_calls [] w = w"
| "run_calls (c # cs) w =
     (case run_call c w of
        (None, w') \<Rightarrow> w'
      | (Some r, w') \<Rightarrow> run_calls cs w')"

text \<open>At most one row of \<open>vm_assignments\<close> per student.\<close>

definition one_vm_per_student :: "db \<Rightarrow> bool" where
  "one_vm_per_student d = distinct (map va_student_id (vm_assignments d))"

text \<open>Two exercises, a student, and the state before and after the student's first \<open>start\<close>.\<close>

definition E1 :: question where
  "E1 = \<lparr>q_id = 1, ordering = 10, enabled = True, fault_id = ''f1'',
          fault_script = Some ''systemctl stop nginx'', fault_path = None,
          check_script = Some ''systemctl is-active nginx'', check_path = None\<rparr>"

definition E2 :: question where
  "E2 = \<lparr>q_id = 2, ordering = 20, enabled = True, fault_id = ''f2'',
          fault_script = None, fault_path = Some ''/opt/faults/f2.sh'',
          check_script = None, check_path = Some ''/opt/checks/c2.sh''\<rparr>"

definition alice :: user where
  "alice = \<lparr>u_id = 7, u_role = ''student'', u_username = ''alice''\<rparr>"

definition sample_env :: env where
  "sample_env =
     \<lparr>hypervisor = sample_pve, run_ssh = sample_ssh, date_now = sample_now,
      VM_SSH_PORT = 22, VM_SSH_USER = None,
      VM_SSH_KEY_PATH = Some ''/home/app/.ssh/id_ed25519'', VM_IP_TEMPLATE = None\<rparr>"

definition fresh_db :: db where
  "fresh_db =
     \<lparr>users = [alice], questions = [E2, E1], vm_assignments = [],
      progress_rows = (\<lambda>studentId. \<lparr>current_qid = None, started = False\<rparr>),
      attempts = []\<rparr>"

definition fresh_world :: world where
  "fresh_world = \<lparr>store = fresh_db, queue_units = [], ssh_log = []\<rparr>"

definition alice_vm :: vm_assignment where
  "alice_vm =
     \<lparr>va_student_id = 7, va_vmid = 101, vm_name = ''student-alice-7'',
      vm_ip = Some ''10.0.0.5'', snapshot_name = ''clean_start''\<rparr>"

text \<open>Alice has her VM and is on exercise \<open>qid\<close>, with the given attempts on record.\<close>

definition active_world :: "nat \<Rightarrow> attempt list \<Rightarrow> world" where
  "active_world qid atts =
     \<lparr>store = fresh_db\<lparr>vm_assignments := [alice_vm],
                         progress_rows := (progress_rows fresh_db)
                            (7 := \<lparr>current_qid = Some qid, started = True\<rparr>),
                         attempts := atts\<rparr>,
      queue_units = [[Clone 101 ''student-alice-7'', StartVM 101, Snapshot 101 ''clean_start'']],
      ssh_log = []\<rparr>"

definition pass_of :: "nat \<Rightarrow> attempt" where
  "pass_of qid =
     \<lparr>at_student_id = 7, at_question_id = qid, passed = True, at_stdout = ''done'',
      at_stderr = [], at_output = ''done''\<rparr>"

text \<open>Every recorded snapshot name is the one \<open>start\<close> writes.\<close>

definition clean_start_only :: "db \<Rightarrow> bool" where
  "clean_start_only d = list_all (\<lambda>a. snapshot_name a = ''clean_start'') (vm_assignments d)"

definition fail_of :: "nat \<Rightarrow> attempt" where
  "fail_of qid =
     \<lparr>at_student_id = 7, at_question_id = qid, passed = False, at_stdout = [],
      at_stderr = ''inactive'', at_output = ''inactive''\<rparr>"

text \<open>Every stored role is the one the login handler computes from the name.\<close>

definition roles_by_name :: "db \<Rightarrow> bool" where
  "roles_by_name d = list_all (\<lambda>u. u_role u = role_for (u_username u)) (users d)"

text \<open>A started student's current exercise is one of the enabled ones.\<close>

definition current_enabled :: "db \<Rightarrow> nat \<Rightarrow> bool" where
  "current_enabled d studentId =
     (started (getProgress d studentId) \<longrightarrow>
      list_ex (\<lambda>q. Some (q_id q) = current_qid (getProgress d studentId)) (getQuestions d True))"

text \<open>The state after Alice's first \<open>start\<close> on the sample control plane and target.\<close>

definition started_world :: world where
  "started_world =
     \<lparr>store = fresh_db\<lparr>vm_assignments := [alice_vm],
                         progress_rows := (progress_rows fresh_db)
                            (7 := \<lparr>current_qid = Some 1, started = True\<rparr>)\<rparr>,
      queue_units = [[Clone 101 ''student-alice-7'', StartVM 101, Snapshot 101 ''clean_start'']],
      ssh_log = map (Pair sample_conn)
        [writeCmd ''/tmp/fault_1700000000000.sh'' ''systemctl stop nginx'',
         ''chmod +x /tmp/fault_1700000000000.sh'', ''sudo /tmp/fault_1700000000000.sh'',
         ''rm -f /tmp/fault_1700000000000.sh'']\<rparr>"

section \<open>Properties of the hypervisor client\<close>

subsection \<open>\<open>getVMIP\<close>\<close>

lemma scan_ips_find: "scan_ips ips = map_option ip_address (find non_loopback_ipv4 ips)"
  by (induction ips) (simp_all add: non_loopback_ipv4_def)

lemma find_append_opt:
  "find P (xs @ ys) = (case find P xs of Some x \<Rightarrow> Some x | None \<Rightarrow> find P ys)"
  by (induction xs) simp_all

lemma scan_ifaces_find:
  "scan_ifaces is = map_option ip_address (find non_loopback_ipv4
      (concat (map (\<lambda>i. case ip_addresses i of None \<Rightarrow> [] | Some ips \<Rightarrow> ips) is)))"
proof (induction "is")
  case Nil
  show ?case by simp
next
  case (Cons i "is")
  show ?case
  proof (cases "ip_addresses i")
    case None
    with Cons show ?thesis by simp
  next
    case (Some ips)
    with Cons show ?thesis
      by (cases ips) (auto simp: scan_ips_find find_append_opt split: option.splits)
  qed
qed

text \<open>
  C8. \<open>getVMIP\<close> returns the first non-loopback IPv4 address among the addresses the guest
  agent reports, in reporting order; it returns \<open>null\<close> when there is none, when the agent
  data is missing and when the status query fails. It has no error outcome at all.
\<close>

theorem getVMIP_first_non_loopback_ipv4:
  "getVMIP p vmid =
     (case getVMStatus p vmid of Inl e \<Rightarrow> None | Inr st \<Rightarrow> first_non_loopback_ipv4 st)"
  by (auto simp: getVMIP_def first_non_loopback_ipv4_def reported_addresses_def scan_ifaces_find
           split: sum.splits option.splits)

theorem getVMIP_first_non_loopback_ipv4_witness:
  "getVMIP sample_pve 101 = Some ''10.0.0.5''
   \<and> getVMIP (sample_pve\<lparr>pve_status_current := (\<lambda>v. Inl (PveApiError ''timeout''))\<rparr>) 101 = None"
  using getVMIP_first_non_loopback_ipv4 [of sample_pve 101]
        getVMIP_first_non_loopback_ipv4
          [of "sample_pve\<lparr>pve_status_current := (\<lambda>v. Inl (PveApiError ''timeout''))\<rparr>" 101]
  by (simp add: getVMStatus_def sample_pve_def sample_status_def first_non_loopback_ipv4_def
        reported_addresses_def non_loopback_ipv4_def startsWith_def)

subsection \<open>\<open>waitForTask\<close>\<close>

lemma poll_start_mono: "k \<le> k' \<Longrightarrow> poll_start task k \<le> poll_start task k'"
  by (induction k') (auto simp: le_Suc_eq)

lemma decisive_step:
  "decisive task T k0 k \<longleftrightarrow>
     (k = k0 \<and> poll_start task k0 < T) \<or> (still_running (task k0) \<and> decisive task T (Suc k0) k)"
  unfolding decisive_def
  by (metis Suc_leD Suc_le_eq le_eq_less_or_eq not_less_eq_eq)

lemma decisive_in_window: "decisive task T k0 k \<Longrightarrow> poll_start task k0 < T"
  unfolding decisive_def using poll_start_mono[of k0 k task] by linarith

lemma decisive_stop:
  "\<not> still_running (task k0) \<Longrightarrow> poll_start task k0 < T \<Longrightarrow> decisive task T k0 k \<longleftrightarrow> k = k0"
  by (subst decisive_step) auto

lemma decisive_run:
  "still_running (task k0) \<Longrightarrow> \<not> Q (task k0) \<Longrightarrow>
   (\<exists>k. decisive task T k0 k \<and> Q (task k)) \<longleftrightarrow> (\<exists>k. decisive task T (Suc k0) k \<and> Q (task k))"
  by (subst decisive_step) auto

lemma still_runningD:
  "still_running r \<Longrightarrow> \<exists>a st. r = Some a \<and> reply a = Inr st \<and> status st \<noteq> ''stopped''"
  by (auto simp: still_running_def split: option.splits sum.splits)

text \<open>The four ways through one iteration of the loop.\<close>

lemma loop_run:
  "elapsed < T \<Longrightarrow> still_running (task k) \<Longrightarrow>
   waitForTask_loop task T elapsed k
     = waitForTask_loop task T (elapsed + answer_ms (task k) + 2000) (Suc k)"
  by (subst waitForTask_loop.simps)
     (auto simp: still_running_def answer_ms_def split: option.splits sum.splits)

lemma loop_late:
  "\<not> elapsed < T \<Longrightarrow> waitForTask_loop task T elapsed k = Some (Inl TaskTimeout, elapsed, k)"
  by (subst waitForTask_loop.simps) simp

lemma loop_stall:
  "elapsed < T \<Longrightarrow> task k = None \<Longrightarrow> waitForTask_loop task T elapsed k = None"
  by (subst waitForTask_loop.simps) simp

lemma loop_stop:
  "elapsed < T \<Longrightarrow> task k = Some r \<Longrightarrow> \<not> still_running (task k) \<Longrightarrow>
   waitForTask_loop task T elapsed k =
     Some ((case reply r of
              Inl m \<Rightarrow> Inl (PveApiError m)
            | Inr st \<Rightarrow> if exitstatus st = ''OK'' then Inr True
                        else Inl (TaskFailed (exitstatus st))),
           elapsed + reply_ms r, Suc k)"
  by (subst waitForTask_loop.simps) (auto simp: still_running_def split: sum.splits)

text \<open>The outcome at a poll that does not say "running".\<close>

lemma loop_decide:
  assumes "elapsed < T" and "\<not> still_running (task k)"
  shows "map_option fst (waitForTask_loop task T elapsed k) = Some (Inr True)
           \<longleftrightarrow> reports_ok (task k)"
    and "map_option fst (waitForTask_loop task T elapsed k) = Some (Inl (TaskFailed s))
           \<longleftrightarrow> reports_failure (task k) s"
    and "map_option fst (waitForTask_loop task T elapsed k) \<noteq> Some (Inl TaskTimeout)"
    and "waitForTask_loop task T elapsed k = None \<longleftrightarrow> task k = None"
proof -
  show "map_option fst (waitForTask_loop task T elapsed k) = Some (Inr True)
           \<longleftrightarrow> reports_ok (task k)"
  proof (cases "task k")
    case None
    with assms show ?thesis by (simp add: loop_stall reports_ok_def)
  next
    case (Some r)
    with assms show ?thesis
      by (auto simp: loop_stop still_running_def reports_ok_def split: sum.splits)
  qed
  show "map_option fst (waitForTask_loop task T elapsed k) = Some (Inl (TaskFailed s))
           \<longleftrightarrow> reports_failure (task k) s"
  proof (cases "task k")
    case None
    with assms show ?thesis by (simp add: loop_stall reports_failure_def)
  next
    case (Some r)
    with assms show ?thesis
      by (auto simp: loop_stop still_running_def reports_failure_def split: sum.splits)
  qed
  show "map_option fst (waitForTask_loop task T elapsed k) \<noteq> Some (Inl TaskTimeout)"
  proof (cases "task k")
    case None
    with assms show ?thesis by (simp add: loop_stall)
  next
    case (Some r)
    with assms show ?thesis
      by (auto simp: loop_stop split: sum.splits)
  qed
  show "waitForTask_loop task T elapsed k = None \<longleftrightarrow> task k = None"
  proof (cases "task k")
    case None
    with assms show ?thesis by (simp add: loop_stall)
  next
    case (Some r)
    with assms show ?thesis by (simp add: loop_stop)
  qed
qed

lemma loop_ok:
  "elapsed = poll_start task k0 \<Longrightarrow>
   map_option fst (waitForTask_loop task T elapsed k0) = Some (Inr True) \<longleftrightarrow>
     (\<exists>k. decisive task T k0 k \<and> reports_ok (task k))"
proof (induction task T elapsed k0 rule: waitForTask_loop.induct)
  case (1 task T elapsed k)
  show ?case
  proof (cases "elapsed < T")
    case False
    with 1(2) show ?thesis by (auto simp: loop_late dest: decisive_in_window)
  next
    case True
    show ?thesis
    proof (cases "still_running (task k)")
      case False
      with True 1(2) loop_decide(1)[where task=task and k=k, OF True False] show ?thesis
        by (simp add: decisive_stop)
    next
      case run: True
      then obtain a st where st: "task k = Some a" "reply a = Inr st" "status st \<noteq> ''stopped''"
        using still_runningD by blast
      have ms: "answer_ms (task k) = reply_ms a" using st by (simp add: answer_ms_def)
      have "\<not> reports_ok (task k)" using st by (simp add: reports_ok_def)
      with 1(1)[OF True st] 1(2) run True show ?thesis
        by (simp add: loop_run decisive_run ms)
    qed
  qed
qed

lemma loop_failed:
  "elapsed = poll_start task k0 \<Longrightarrow>
   map_option fst (waitForTask_loop task T elapsed k0) = Some (Inl (TaskFailed s)) \<longleftrightarrow>
     (\<exists>k. decisive task T k0 k \<and> reports_failure (task k) s)"
proof (induction task T elapsed k0 rule: waitForTask_loop.induct)
  case (1 task T elapsed k)
  show ?case
  proof (cases "elapsed < T")
    case False
    with 1(2) show ?thesis by (auto simp: loop_late dest: decisive_in_window)
  next
    case True
    show ?thesis
    proof (cases "still_running (task k)")
      case False
      with True 1(2) loop_decide(2)[where task=task and k=k, OF True False] show ?thesis
        by (simp add: decisive_stop)
    next
      case run: True
      then obtain a st where st: "task k = Some a" "reply a = Inr st" "status st \<noteq> ''stopped''"
        using still_runningD by blast
      have ms: "answer_ms (task k) = reply_ms a" using st by (simp add: answer_ms_def)
      have "\<not> reports_failure (task k) s" using st by (simp add: reports_failure_def)
      with 1(1)[OF True st] 1(2) run True show ?thesis
        by (simp add: loop_run ms decisive_run[where Q="\<lambda>r. reports_failure r s"])
    qed
  qed
qed

lemma loop_hangs:
  "elapsed = poll_start task k0 \<Longrightarrow>
   waitForTask_loop task T elapsed k0 = None \<longleftrightarrow>
     (\<exists>k. decisive task T k0 k \<and> task k = None)"
proof (induction task T elapsed k0 rule: waitForTask_loop.induct)
  case (1 task T elapsed k)
  show ?case
  proof (cases "elapsed < T")
    case False
    with 1(2) show ?thesis by (auto simp: loop_late dest: decisive_in_window)
  next
    case True
    show ?thesis
    proof (cases "still_running (task k)")
      case False
      with True 1(2) loop_decide(4)[where task=task and k=k, OF True False] show ?thesis
        by (simp add: decisive_stop)
    next
      case run: True
      then obtain a st where st: "task k = Some a" "reply a = Inr st" "status st \<noteq> ''stopped''"
        using still_runningD by blast
      have ms: "answer_ms (task k) = reply_ms a" using st by (simp add: answer_ms_def)
      have "task k \<noteq> None" using st by simp
      with 1(1)[OF True st] 1(2) run True show ?thesis
        by (simp add: loop_run ms decisive_run[where Q="\<lambda>r. r = None"])
    qed
  qed
qed

lemma loop_timeout:
  "elapsed = poll_start task k0 \<Longrightarrow>
   map_option fst (waitForTask_loop task T elapsed k0) = Some (Inl TaskTimeout) \<longleftrightarrow>
     (\<forall>k. decisive task T k0 k \<longrightarrow> still_running (task k))"
proof (induction task T elapsed k0 rule: waitForTask_loop.induct)
  case (1 task T elapsed k)
  show ?case
  proof (cases "elapsed < T")
    case False
    with 1(2) show ?thesis by (auto simp: loop_late dest: decisive_in_window)
  next
    case True
    show ?thesis
    proof (cases "still_running (task k)")
      case False
      with True 1(2) loop_decide(3)[where task=task and k=k, OF True False] show ?thesis
        by (auto simp: decisive_stop)
    next
      case run: True
      then obtain a st where st: "task k = Some a" "reply a = Inr st" "status st \<noteq> ''stopped''"
        using still_runningD by blast
      have ms: "answer_ms (task k) = reply_ms a" using st by (simp add: answer_ms_def)
      have "(\<forall>k'. decisive task T k k' \<longrightarrow> still_running (task k'))
            \<longleftrightarrow> (\<forall>k'. decisive task T (Suc k) k' \<longrightarrow> still_running (task k'))"
        using run by (subst decisive_step) auto
      with 1(1)[OF True st] 1(2) run True show ?thesis
        by (simp add: loop_run ms)
    qed
  qed
qed

text \<open>
  When and after how many polls the loop returns: on a timeout at the loop test that
  finds the budget used up, otherwise when the answer to its last poll arrives.
\<close>

lemma loop_returns:
  "elapsed = poll_start task k0 \<Longrightarrow> waitForTask_loop task T elapsed k0 = Some (res, e, n) \<Longrightarrow>
   k0 \<le> n \<and>
   (if res = Inl TaskTimeout then e = poll_start task n \<and> T \<le> e
    else k0 < n \<and> poll_start task (n - 1) < T
         \<and> e = poll_start task (n - 1) + answer_ms (task (n - 1)))"
proof (induction task T elapsed k0 rule: waitForTask_loop.induct)
  case (1 task T elapsed k)
  show ?case
  proof (cases "elapsed < T")
    case False
    with 1(2,3) show ?thesis by (auto simp: loop_late)
  next
    case True
    show ?thesis
    proof (cases "still_running (task k)")
      case False
      show ?thesis
      proof (cases "task k")
        case None
        with True 1(3) show ?thesis by (simp add: loop_stall)
      next
        case (Some r)
        with True False 1(2,3) show ?thesis
          by (auto simp: loop_stop answer_ms_def split: sum.splits if_splits)
      qed
    next
      case run: True
      then obtain a st where st: "task k = Some a" "reply a = Inr st" "status st \<noteq> ''stopped''"
        using still_runningD by blast
      have ms: "answer_ms (task k) = reply_ms a" using st by (simp add: answer_ms_def)
      from 1(3) run True have "waitForTask_loop task T (elapsed + reply_ms a + 2000) (Suc k)
                                  = Some (res, e, n)"
        by (simp add: loop_run ms)
      from 1(1)[OF True st _ this] 1(2) ms show ?thesis
        by (auto split: if_splits)
    qed
  qed
qed

text \<open>Every iteration that continues costs at least the 2000 ms sleep.\<close>

lemma loop_polls:
  "waitForTask_loop task T elapsed k0 = Some (res, e, n) \<Longrightarrow>
   n \<le> k0 + (T - elapsed + 1999) div 2000"
proof (induction task T elapsed k0 rule: waitForTask_loop.induct)
  case (1 task T elapsed k)
  show ?case
  proof (cases "elapsed < T")
    case False
    with 1(2) show ?thesis by (simp add: loop_late)
  next
    case True
    then have one: "1 \<le> (T - elapsed + 1999) div 2000" by simp
    show ?thesis
    proof (cases "still_running (task k)")
      case False
      show ?thesis
      proof (cases "task k")
        case None
        with True 1(2) show ?thesis by (simp add: loop_stall)
      next
        case (Some r)
        with True False one 1(2) show ?thesis by (auto simp: loop_stop)
      qed
    next
      case run: True
      then obtain a st where st: "task k = Some a" "reply a = Inr st" "status st \<noteq> ''stopped''"
        using still_runningD by blast
      have ms: "answer_ms (task k) = reply_ms a" using st by (simp add: answer_ms_def)
      have le: "Suc ((T - (elapsed + reply_ms a + 2000) + 1999) div 2000)
              \<le> (T - elapsed + 1999) div 2000"
        using True by (cases "elapsed + reply_ms a + 2000 \<le> T") auto
      from 1(2) run True have "waitForTask_loop task T (elapsed + reply_ms a + 2000) (Suc k)
                                  = Some (res, e, n)"
        by (simp add: loop_run ms)
      from 1(1)[OF True st this] le show ?thesis by simp
    qed
  qed
qed

text \<open>With every request answered within \<open>d\<close> ms the loop returns, and soon after the budget.\<close>

lemma loop_bounded:
  "(\<And>j. \<exists>a. task j = Some a \<and> reply_ms a \<le> d) \<Longrightarrow>
   \<exists>res e n. waitForTask_loop task T elapsed k0 = Some (res, e, n)
            \<and> e \<le> max elapsed (T + d + 1999)"
proof (induction task T elapsed k0 rule: waitForTask_loop.induct)
  case (1 task T elapsed k)
  from 1(2)[of k] obtain r where r: "task k = Some r" "reply_ms r \<le> d" by blast
  show ?case
  proof (cases "elapsed < T")
    case False
    then show ?thesis by (simp add: loop_late)
  next
    case True
    show ?thesis
    proof (cases "still_running (task k)")
      case False
      with True r show ?thesis by (simp add: loop_stop)
    next
      case run: True
      then obtain st where st: "reply r = Inr st" "status st \<noteq> ''stopped''"
        using still_runningD r by fastforce
      have ms: "answer_ms (task k) = reply_ms r" using r by (simp add: answer_ms_def)
      from 1(1)[OF True r(1) st 1(2)] obtain res e n where
        "waitForTask_loop task T (elapsed + reply_ms r + 2000) (Suc k) = Some (res, e, n)"
        "e \<le> max (elapsed + reply_ms r + 2000) (T + d + 1999)" by blast
      with run True r(2) show ?thesis
        by (simp add: loop_run ms)
    qed
  qed
qed

text \<open>
  C4. \<open>waitForTask\<close> sends poll \<open>k\<close> at \<open>poll_start task k\<close>, each poll one request and a
  2000 ms sleep after the one before, and it tests the budget only before it sends a
  poll. So the window is a window for sending, not for the answer. It resolves \<open>true\<close>
  exactly when a poll sent inside the budget, all earlier ones having said "running", is
  answered \<open>stopped\<close> with exit status \<open>OK\<close>, whenever that answer arrives; it throws the
  task-failed error with the exit status exactly when such a poll is answered \<open>stopped\<close>
  with another exit status; it throws the timeout error exactly when every poll sent
  inside the budget said "running"; and it never returns exactly when such a poll is
  never answered. When it returns it has sent at most \<open>\<lceil>timeout / 2000\<rceil>\<close> polls; a
  timeout is thrown at a loop test, not before the budget is used up; every other
  outcome comes when the answer to the last poll arrives, however long after the budget
  that is. If every request is answered within \<open>d\<close> ms, it does return, before
  \<open>timeout + d + 2000\<close> ms have passed.
\<close>

theorem waitForTask_outcome:
  "(waitForTask task timeout = Some (Inr True) \<longleftrightarrow>
      (\<exists>k. (\<forall>j<k. still_running (task j)) \<and> poll_start task k < timeout \<and> reports_ok (task k)))
   \<and> (waitForTask task timeout = Some (Inl (TaskFailed s)) \<longleftrightarrow>
      (\<exists>k. (\<forall>j<k. still_running (task j)) \<and> poll_start task k < timeout
           \<and> reports_failure (task k) s))
   \<and> (waitForTask task timeout = Some (Inl TaskTimeout) \<longleftrightarrow>
      (\<forall>k. (\<forall>j<k. still_running (task j)) \<and> poll_start task k < timeout
           \<longrightarrow> still_running (task k)))
   \<and> (waitForTask task timeout = None \<longleftrightarrow>
      (\<exists>k. (\<forall>j<k. still_running (task j)) \<and> poll_start task k < timeout \<and> task k = None))
   \<and> (\<forall>res e n. waitForTask_loop task timeout 0 0 = Some (res, e, n) \<longrightarrow>
        n \<le> (timeout + 1999) div 2000
        \<and> (if res = Inl TaskTimeout then e = poll_start task n \<and> timeout \<le> e
           else 0 < n \<and> poll_start task (n - 1) < timeout
                \<and> e = poll_start task (n - 1) + answer_ms (task (n - 1))))
   \<and> ((\<forall>j. \<exists>a. task j = Some a \<and> reply_ms a \<le> d) \<longrightarrow>
        (\<exists>res e n. waitForTask_loop task timeout 0 0 = Some (res, e, n)
                  \<and> e \<le> timeout + d + 1999))"
proof -
  have dec: "\<And>k. decisive task timeout 0 k
               \<longleftrightarrow> (\<forall>j<k. still_running (task j)) \<and> poll_start task k < timeout"
    by (simp add: decisive_def)
  have a: "waitForTask task timeout = Some (Inr True) \<longleftrightarrow>
      (\<exists>k. (\<forall>j<k. still_running (task j)) \<and> poll_start task k < timeout \<and> reports_ok (task k))"
    using loop_ok[of 0 task 0 timeout] by (simp add: waitForTask_def dec)
  have b: "waitForTask task timeout = Some (Inl (TaskFailed s)) \<longleftrightarrow>
      (\<exists>k. (\<forall>j<k. still_running (task j)) \<and> poll_start task k < timeout
           \<and> reports_failure (task k) s)"
    using loop_failed[of 0 task 0 timeout s] by (simp add: waitForTask_def dec)
  have c: "waitForTask task timeout = Some (Inl TaskTimeout) \<longleftrightarrow>
      (\<forall>k. (\<forall>j<k. still_running (task j)) \<and> poll_start task k < timeout
           \<longrightarrow> still_running (task k))"
    using loop_timeout[of 0 task 0 timeout] by (simp add: waitForTask_def dec)
  have h: "waitForTask task timeout = None \<longleftrightarrow>
      (\<exists>k. (\<forall>j<k. still_running (task j)) \<and> poll_start task k < timeout \<and> task k = None)"
    using loop_hangs[of 0 task 0 timeout] by (simp add: waitForTask_def dec)
  have e: "\<forall>res e n. waitForTask_loop task timeout 0 0 = Some (res, e, n) \<longrightarrow>
        n \<le> (timeout + 1999) div 2000
        \<and> (if res = Inl TaskTimeout then e = poll_start task n \<and> timeout \<le> e
           else 0 < n \<and> poll_start task (n - 1) < timeout
                \<and> e = poll_start task (n - 1) + answer_ms (task (n - 1)))"
  proof (intro allI impI conjI)
    fix res e n assume r: "waitForTask_loop task timeout 0 0 = Some (res, e, n)"
    from loop_polls[OF r] show "n \<le> (timeout + 1999) div 2000" by simp
    from loop_returns[of 0 task 0 timeout res e n, OF _ r]
    show "if res = Inl TaskTimeout then e = poll_start task n \<and> timeout \<le> e
          else 0 < n \<and> poll_start task (n - 1) < timeout
               \<and> e = poll_start task (n - 1) + answer_ms (task (n - 1))"
      by simp
  qed
  have f: "(\<forall>j. \<exists>a. task j = Some a \<and> reply_ms a \<le> d) \<longrightarrow>
        (\<exists>res e n. waitForTask_loop task timeout 0 0 = Some (res, e, n)
                  \<and> e \<le> timeout + d + 1999)"
  proof
    assume "\<forall>j. \<exists>a. task j = Some a \<and> reply_ms a \<le> d"
    then have "\<And>j. \<exists>a. task j = Some a \<and> reply_ms a \<le> d" by simp
    from loop_bounded[of task d timeout 0 0, OF this]
    show "\<exists>res e n. waitForTask_loop task timeout 0 0 = Some (res, e, n)
                  \<and> e \<le> timeout + d + 1999" by simp
  qed
  show ?thesis
    apply (rule conjI, rule a)
    apply (rule conjI, rule b)
    apply (rule conjI, rule c)
    apply (rule conjI, rule h)
    apply (rule conjI, rule e)
    apply (rule f)
    done
qed

text \<open>
  The sample task, for which the third poll is the deciding one, under three budgets
  and exit statuses, and the same task with its third request left unanswered.
\<close>

theorem waitForTask_outcome_witness:
  "waitForTask (sample_task ''OK'') DEFAULT_TIMEOUT = Some (Inr True)
   \<and> waitForTask (sample_task ''ERROR'') DEFAULT_TIMEOUT = Some (Inl (TaskFailed ''ERROR''))
   \<and> waitForTask (sample_task ''OK'') 2000 = Some (Inl TaskTimeout)
   \<and> waitForTask stalled_task DEFAULT_TIMEOUT = None
   \<and> (\<exists>e n. waitForTask_loop (sample_task ''OK'') 2000 0 0 = Some (Inl TaskTimeout, e, n)
            \<and> n \<le> 1 \<and> 2000 \<le> e \<and> e = poll_start (sample_task ''OK'') n)
   \<and> (\<exists>res e n. waitForTask_loop (sample_task ''OK'') DEFAULT_TIMEOUT 0 0 = Some (res, e, n)
                \<and> e \<le> DEFAULT_TIMEOUT + 150 + 1999)"
proof (intro conjI)
  have late: "waitForTask_loop (sample_task ''OK'') 2000 0 0 = Some (Inl TaskTimeout, 2150, Suc 0)"
    by (simp add: waitForTask_loop.simps sample_task_def)
  have run: "\<And>e. \<forall>j<2. still_running (sample_task e j)"
    by (simp add: sample_task_def still_running_def)
  have srun: "\<forall>j<2. still_running (stalled_task j)"
    by (simp add: stalled_task_def still_running_def)
  have "\<And>e. poll_start (sample_task e) (Suc (Suc 0)) = 4300"
    by (simp add: sample_task_def answer_ms_def)
  then have start: "\<And>e. poll_start (sample_task e) 2 < DEFAULT_TIMEOUT"
    by (simp only: numeral_2_eq_2 DEFAULT_TIMEOUT_def)
  have "poll_start stalled_task (Suc (Suc 0)) = 4300"
    by (simp add: stalled_task_def answer_ms_def)
  then have sstart: "poll_start stalled_task 2 < DEFAULT_TIMEOUT"
    by (simp only: numeral_2_eq_2 DEFAULT_TIMEOUT_def)
  have ok: "reports_ok (sample_task ''OK'' 2)"
    by (simp add: sample_task_def reports_ok_def)
  have bad: "reports_failure (sample_task ''ERROR'' 2) ''ERROR''"
    by (simp add: sample_task_def reports_failure_def)
  have stall: "stalled_task 2 = None"
    by (simp add: stalled_task_def)
  have quick: "\<forall>j. \<exists>a. sample_task ''OK'' j = Some a \<and> reply_ms a \<le> 150"
    by (simp add: sample_task_def)
  show "waitForTask (sample_task ''OK'') DEFAULT_TIMEOUT = Some (Inr True)"
    unfolding waitForTask_outcome [of "sample_task ''OK''" DEFAULT_TIMEOUT, THEN conjunct1]
  proof (intro exI[of _ 2] conjI)
    show "\<forall>j<2. still_running (sample_task ''OK'' j)" by (rule run)
    show "poll_start (sample_task ''OK'') 2 < DEFAULT_TIMEOUT" by (rule start)
    show "reports_ok (sample_task ''OK'' 2)" by (rule ok)
  qed
  show "waitForTask (sample_task ''ERROR'') DEFAULT_TIMEOUT = Some (Inl (TaskFailed ''ERROR''))"
    unfolding waitForTask_outcome [of "sample_task ''ERROR''" DEFAULT_TIMEOUT "''ERROR''",
        THEN conjunct2, THEN conjunct1]
  proof (intro exI[of _ 2] conjI)
    show "\<forall>j<2. still_running (sample_task ''ERROR'' j)" by (rule run)
    show "poll_start (sample_task ''ERROR'') 2 < DEFAULT_TIMEOUT" by (rule start)
    show "reports_failure (sample_task ''ERROR'' 2) ''ERROR''" by (rule bad)
  qed
  show "waitForTask (sample_task ''OK'') 2000 = Some (Inl TaskTimeout)"
    unfolding waitForTask_outcome [of "sample_task ''OK''" 2000,
        THEN conjunct2, THEN conjunct2, THEN conjunct1]
  proof (intro allI impI)
    fix k assume a: "(\<forall>j<k. still_running (sample_task ''OK'' j))
          \<and> poll_start (sample_task ''OK'') k < 2000"
    have "k = 0" using a by (cases k) simp_all
    then show "still_running (sample_task ''OK'' k)" using run by simp
  qed
  show "waitForTask stalled_task DEFAULT_TIMEOUT = None"
    unfolding waitForTask_outcome [of stalled_task DEFAULT_TIMEOUT,
        THEN conjunct2, THEN conjunct2, THEN conjunct2, THEN conjunct1]
  proof (intro exI[of _ 2] conjI)
    show "\<forall>j<2. still_running (stalled_task j)" by (rule srun)
    show "poll_start stalled_task 2 < DEFAULT_TIMEOUT" by (rule sstart)
    show "stalled_task 2 = None" by (rule stall)
  qed
  from waitForTask_outcome [of "sample_task ''OK''" 2000,
        THEN conjunct2, THEN conjunct2, THEN conjunct2, THEN conjunct2, THEN conjunct1,
        rule_format, OF late]
  have "Suc 0 \<le> (2000 + 1999) div 2000
        \<and> 2150 = poll_start (sample_task ''OK'') (Suc 0) \<and> (2000::nat) \<le> 2150"
    by simp
  with late
  show "\<exists>e n. waitForTask_loop (sample_task ''OK'') 2000 0 0 = Some (Inl TaskTimeout, e, n)
            \<and> n \<le> 1 \<and> 2000 \<le> e \<and> e = poll_start (sample_task ''OK'') n"
    by (intro exI[of _ 2150] exI[of _ "Suc 0"]) simp
  show "\<exists>res e n. waitForTask_loop (sample_task ''OK'') DEFAULT_TIMEOUT 0 0 = Some (res, e, n)
                \<and> e \<le> DEFAULT_TIMEOUT + 150 + 1999"
    using waitForTask_outcome [of "sample_task ''OK''" DEFAULT_TIMEOUT _ 150,
        THEN conjunct2, THEN conjunct2, THEN conjunct2, THEN conjunct2, THEN conjunct2,
        THEN mp, OF quick] .
qed

lemma stalled_task_hangs: "waitForTask stalled_task DEFAULT_TIMEOUT = None"
proof -
  have r0: "still_running (stalled_task 0)" and r1: "still_running (stalled_task (Suc 0))"
    by (simp_all add: stalled_task_def still_running_def)
  have ms: "answer_ms (stalled_task 0) = 150" "answer_ms (stalled_task (Suc 0)) = 150"
    by (simp_all add: stalled_task_def answer_ms_def)
  have "waitForTask_loop stalled_task 300000 0 0 = waitForTask_loop stalled_task 300000 2150 (Suc 0)"
    using loop_run[of 0 300000 stalled_task 0, OF _ r0] by (simp add: ms)
  also have "\<dots> = waitForTask_loop stalled_task 300000 4300 (Suc (Suc 0))"
    using loop_run[of 2150 300000 stalled_task "Suc 0", OF _ r1] by (simp add: ms)
  also have "\<dots> = None"
    by (rule loop_stall) (simp_all add: stalled_task_def)
  finally show ?thesis
    by (simp add: waitForTask_def DEFAULT_TIMEOUT_def)
qed

text \<open>
  As stated, C4 fails twice. With a budget of 2000 ms, a task whose first status request
  is answered after 5000 ms, with \<open>stopped\<close> and \<open>OK\<close>, makes \<open>waitForTask\<close> resolve \<open>true\<close>
  at 5000 ms, after one poll: the report did not come within the window and no timeout
  is raised once the budget has elapsed. And with a status request that is never
  answered the call never returns, whatever the budget.
\<close>

theorem waitForTask_past_budget:
  "waitForTask_loop slow_task 2000 0 0 = Some (Inr True, 5000, 1)
   \<and> waitForTask slow_task 2000 \<noteq> Some (Inl TaskTimeout)
   \<and> waitForTask stalled_task DEFAULT_TIMEOUT = None"
proof (intro conjI)
  show slow: "waitForTask_loop slow_task 2000 0 0 = Some (Inr True, 5000, 1)"
    by (simp add: waitForTask_loop.simps slow_task_def)
  show "waitForTask slow_task 2000 \<noteq> Some (Inl TaskTimeout)"
    by (simp add: waitForTask_def slow)
  show "waitForTask stalled_task DEFAULT_TIMEOUT = None"
    by (rule stalled_task_hangs)
qed

section \<open>Properties of the script executor\<close>

subsection \<open>Decimal rendering and line splitting\<close>

lemma digit_inj: "digit a = digit b \<Longrightarrow> a < 10 \<Longrightarrow> b < 10 \<Longrightarrow> a = b"
proof -
  assume e: "digit a = digit b" and a: "a < 10" and b: "b < 10"
  have "distinct ''0123456789''" by simp
  moreover have "a < length ''0123456789''" "b < length ''0123456789''" using a b by simp_all
  ultimately show ?thesis using e unfolding digit_def by (simp only: nth_eq_iff_index_eq)
qed

lemma digit_not_nl: "k < 10 \<Longrightarrow> digit k \<noteq> CHR 0x0A"
proof -
  assume "k < 10"
  then have "digit k \<in> set ''0123456789''" unfolding digit_def by (intro nth_mem) simp
  then show ?thesis by auto
qed

lemma show_nat_nonempty: "show_nat n \<noteq> []"
  by (subst show_nat.simps) simp

lemma show_nat_inj: "show_nat n = show_nat m \<Longrightarrow> n = m"
proof (induction n arbitrary: m rule: show_nat.induct)
  case (1 n)
  show ?case
  proof (cases "n < 10")
    case True
    show ?thesis
    proof (cases "m < 10")
      case mt: True
      from 1(2) True mt have "digit n = digit m"
        by (simp add: show_nat.simps[of n] show_nat.simps[of m])
      then show ?thesis using True mt by (rule digit_inj)
    next
      case False
      with 1(2) True show ?thesis
        using show_nat_nonempty[of "m div 10"]
        by (simp add: show_nat.simps[of n] show_nat.simps[of m])
    qed
  next
    case False
    show ?thesis
    proof (cases "m < 10")
      case True
      with 1(2) False show ?thesis
        using show_nat_nonempty[of "n div 10"]
        by (simp add: show_nat.simps[of n] show_nat.simps[of m])
    next
      case mf: False
      from 1(2) False mf have e: "show_nat (n div 10) = show_nat (m div 10)"
        and d: "digit (n mod 10) = digit (m mod 10)"
        by (simp_all add: show_nat.simps[of n] show_nat.simps[of m])
      from 1(1)[OF False e] have "n div 10 = m div 10" .
      moreover from d have "n mod 10 = m mod 10" by (rule digit_inj) simp_all
      ultimately show ?thesis by (metis div_mult_mod_eq)
    qed
  qed
qed

lemma show_nat_no_nl: "CHR 0x0A \<notin> set (show_nat n)"
proof (induction n rule: show_nat.induct)
  case (1 n)
  show ?case
  proof (cases "n < 10")
    case True
    then show ?thesis using digit_not_nl[of n] by (simp add: show_nat.simps[of n] eq_commute)
  next
    case False
    with 1 show ?thesis using digit_not_nl[of "n mod 10"]
      by (simp add: show_nat.simps[of n] eq_commute)
  qed
qed

lemma split_lines_acc_append:
  "split_lines_acc acc (a @ CHR 0x0A # b) = split_lines_acc acc a @ split_lines b"
  by (induction a arbitrary: acc) (simp_all add: split_lines_def)

lemma split_lines_acc_single: "CHR 0x0A \<notin> set a \<Longrightarrow> split_lines_acc acc a = [rev acc @ a]"
  by (induction a arbitrary: acc) auto

lemma split_lines_framed:
  "CHR 0x0A \<notin> set h \<Longrightarrow> CHR 0x0A \<notin> set e \<Longrightarrow>
   split_lines (h @ CHR 0x0A # c @ CHR 0x0A # e) = h # split_lines c @ [e]"
  using split_lines_acc_append[of "[]" h "c @ CHR 0x0A # e"] split_lines_acc_append[of "[]" c e]
  by (simp add: split_lines_def split_lines_acc_single)

lemma heredoc_roundtrip:
  assumes "CHR 0x0A \<notin> set path" and "''EOFSCRIPT'' \<notin> set (split_lines content)"
  shows "heredoc_body (writeCmd path content) = split_lines content"
proof -
  define h where "h = ''cat > '' @ path @ '' << '' @ [CHR 0x27] @ ''EOFSCRIPT'' @ [CHR 0x27]"
  have hn: "CHR 0x0A \<notin> set h" using assms(1) by (simp add: h_def)
  have w: "writeCmd path content = h @ CHR 0x0A # content @ CHR 0x0A # ''EOFSCRIPT''"
    by (simp add: writeCmd_def NL_def h_def)
  have "split_lines (writeCmd path content) = h # split_lines content @ [''EOFSCRIPT'']"
    unfolding w by (rule split_lines_framed[OF hn]) simp
  moreover have "\<forall>l\<in>set (split_lines content). l \<noteq> ''EOFSCRIPT''"
    using assms(2) by auto
  ultimately show ?thesis
    by (simp add: heredoc_body_def)
qed


subsection \<open>\<open>executeScript\<close> with inline content\<close>

lemma tempPath_inj: "tempPath scriptType now = tempPath scriptType now' \<longleftrightarrow> now = now'"
  by (auto simp: tempPath_def dest: show_nat_inj)

lemma tempPath_no_nl: "CHR 0x0A \<notin> set scriptType \<Longrightarrow> CHR 0x0A \<notin> set (tempPath scriptType now)"
  by (simp add: tempPath_def show_nat_no_nl)

lemma executeScript_try_inline_log:
  "truthy scriptContent \<Longrightarrow>
   snd (executeScript_try run now conn scriptContent scriptPath scriptType) \<noteq> [] \<and>
   (\<exists>rest. [writeCmd (tempPath scriptType now) (str scriptContent),
            chmodCmd (tempPath scriptType now), sudoCmd (tempPath scriptType now),
            rmCmd (tempPath scriptType now)]
      = snd (executeScript_try run now conn scriptContent scriptPath scriptType) @ rest)"
  by (simp add: executeScript_try_def Let_def split: sum.splits)

lemma executeScript_log: 
  "snd (executeScript run now (Some conn) scriptContent scriptPath scriptType)
     = snd (executeScript_try run now conn scriptContent scriptPath scriptType)"
  by (simp add: executeScript_def split: prod.splits sum.splits)

text \<open>
  C7, as the code has it. Given inline content, \<open>executeScript\<close> sends, in this order and
  stopping at the first transport failure, the here-document write, \<open>chmod +x\<close>, \<open>sudo\<close>
  and \<open>rm -f\<close>, all on \<^verbatim>\<open>/tmp/<scriptType>_<Date.now()>.sh\<close>. When the first three
  resolve, the result is that of the \<open>sudo\<close> run whatever becomes of the \<open>rm -f\<close>. The path
  is a function of the script type and the clock reading alone: two executions of one
  type have different paths exactly when their clock readings differ. The content
  reaches the file line for line provided none of its lines is \<^verbatim>\<open>EOFSCRIPT\<close>.
\<close>

theorem executeScript_inline_content:
  "truthy scriptContent \<Longrightarrow>
   (snd (executeScript run now (Some conn) scriptContent scriptPath scriptType) \<noteq> [] \<and>
    (\<exists>rest. [writeCmd (tempPath scriptType now) (str scriptContent),
             chmodCmd (tempPath scriptType now), sudoCmd (tempPath scriptType now),
             rmCmd (tempPath scriptType now)]
       = snd (executeScript run now (Some conn) scriptContent scriptPath scriptType) @ rest))
   \<and> (\<forall>r1 r2 r. run conn (writeCmd (tempPath scriptType now) (str scriptContent)) = Inr r1
         \<longrightarrow> run conn (chmodCmd (tempPath scriptType now)) = Inr r2
         \<longrightarrow> run conn (sudoCmd (tempPath scriptType now)) = Inr r
         \<longrightarrow> executeScript run now (Some conn) scriptContent scriptPath scriptType
              = (Inr r, [writeCmd (tempPath scriptType now) (str scriptContent),
                         chmodCmd (tempPath scriptType now), sudoCmd (tempPath scriptType now),
                         rmCmd (tempPath scriptType now)]))
   \<and> (tempPath scriptType now = tempPath scriptType now' \<longleftrightarrow> now = now')
   \<and> (CHR 0x0A \<notin> set scriptType \<longrightarrow> ''EOFSCRIPT'' \<notin> set (split_lines (str scriptContent))
        \<longrightarrow> heredoc_body (writeCmd (tempPath scriptType now) (str scriptContent))
            = split_lines (str scriptContent))"
proof (intro conjI allI impI)
  assume t: "truthy scriptContent"
  from executeScript_try_inline_log[OF t, of run now conn scriptPath scriptType]
  show "snd (executeScript run now (Some conn) scriptContent scriptPath scriptType) \<noteq> []"
    and "\<exists>rest. [writeCmd (tempPath scriptType now) (str scriptContent),
             chmodCmd (tempPath scriptType now), sudoCmd (tempPath scriptType now),
             rmCmd (tempPath scriptType now)]
       = snd (executeScript run now (Some conn) scriptContent scriptPath scriptType) @ rest"
    unfolding executeScript_log by blast+
next
  fix r1 r2 r
  assume "truthy scriptContent"
    and "run conn (writeCmd (tempPath scriptType now) (str scriptContent)) = Inr r1"
    and "run conn (chmodCmd (tempPath scriptType now)) = Inr r2"
    and "run conn (sudoCmd (tempPath scriptType now)) = Inr r"
  then show "executeScript run now (Some conn) scriptContent scriptPath scriptType
              = (Inr r, [writeCmd (tempPath scriptType now) (str scriptContent),
                         chmodCmd (tempPath scriptType now), sudoCmd (tempPath scriptType now),
                         rmCmd (tempPath scriptType now)])"
    by (simp add: executeScript_def executeScript_try_def Let_def)
next
  show "tempPath scriptType now = tempPath scriptType now' \<longleftrightarrow> now = now'"
    by (rule tempPath_inj)
next
  assume "CHR 0x0A \<notin> set scriptType" and "''EOFSCRIPT'' \<notin> set (split_lines (str scriptContent))"
  then show "heredoc_body (writeCmd (tempPath scriptType now) (str scriptContent))
            = split_lines (str scriptContent)"
    by (intro heredoc_roundtrip tempPath_no_nl)
qed

lemma sample_path: "tempPath ''check'' sample_now = ''/tmp/check_1700000000000.sh''"
  by (simp add: tempPath_def sample_now_def show_nat.simps digit_def)

text \<open>A check script on the sample target, whose \<open>rm -f\<close> fails and is swallowed.\<close>

theorem executeScript_inline_content_witness:
  "executeScript sample_ssh sample_now (Some sample_conn) (Some ''exit 0'') None ''check''
     = (Inr \<lparr>code = 0, stdout = ''done'', stderr = []\<rparr>,
        [''cat > /tmp/check_1700000000000.sh << '' @ [CHR 0x27] @ ''EOFSCRIPT'' @ [CHR 0x27] @ NL
           @ ''exit 0'' @ NL @ ''EOFSCRIPT'',
         ''chmod +x /tmp/check_1700000000000.sh'',
         ''sudo /tmp/check_1700000000000.sh'',
         ''rm -f /tmp/check_1700000000000.sh''])
   \<and> sample_ssh sample_conn ''rm -f /tmp/check_1700000000000.sh''
       = Inl (TransportError ''connection lost'')
   \<and> heredoc_body (writeCmd (tempPath ''check'' sample_now) ''exit 0'') = [''exit 0'']"
proof -
  have t: "truthy (Some ''exit 0'')" by (simp add: truthy_def)
  note inst = executeScript_inline_content [where scriptContent = "Some ''exit 0''"
      and run = sample_ssh and now = sample_now and conn = sample_conn and scriptPath = None
      and scriptType = "''check''" and now' = sample_now, OF t]
  have w: "sample_ssh sample_conn (writeCmd (tempPath ''check'' sample_now) (str (Some ''exit 0'')))
             = Inr \<lparr>code = 0, stdout = ''done'', stderr = []\<rparr>"
    by (simp add: sample_ssh_def writeCmd_def startsWith_def)
  have c: "sample_ssh sample_conn (chmodCmd (tempPath ''check'' sample_now))
             = Inr \<lparr>code = 0, stdout = ''done'', stderr = []\<rparr>"
    by (simp add: sample_ssh_def chmodCmd_def startsWith_def)
  have s: "sample_ssh sample_conn (sudoCmd (tempPath ''check'' sample_now))
             = Inr \<lparr>code = 0, stdout = ''done'', stderr = []\<rparr>"
    by (simp add: sample_ssh_def sudoCmd_def startsWith_def)
  have nl: "CHR 0x0A \<notin> set ''check''" by simp
  have ne: "''EOFSCRIPT'' \<notin> set (split_lines (str (Some ''exit 0'')))"
    by (simp add: str_def split_lines_def)
  from inst[THEN conjunct2, THEN conjunct1, rule_format, OF w c s]
       inst[THEN conjunct2, THEN conjunct2, THEN conjunct2, rule_format, OF nl ne]
  show ?thesis
    by (simp add: sample_path writeCmd_def chmodCmd_def sudoCmd_def rmCmd_def str_def
          sample_ssh_def startsWith_def split_lines_def NL_def)
qed

text \<open>
  C7 as stated fails twice. Two executions of one type in the same millisecond, with
  different content, write and run the same file; and content with a line \<^verbatim>\<open>EOFSCRIPT\<close>
  is cut at that line, so the file holds \<^verbatim>\<open>echo a\<close> only.
\<close>

theorem executeScript_collision_and_truncation:
  "snd (executeScript sample_ssh sample_now (Some sample_conn) (Some ''exit 0'') None ''check'') ! 2
     = ''sudo /tmp/check_1700000000000.sh''
   \<and> snd (executeScript sample_ssh sample_now (Some sample_conn) (Some ''exit 1'') None ''check'') ! 2
     = ''sudo /tmp/check_1700000000000.sh''
   \<and> heredoc_body (hd (snd (executeScript sample_ssh sample_now (Some sample_conn)
        (Some (''echo a'' @ NL @ ''EOFSCRIPT'' @ NL @ ''reboot'')) None ''check'')))
     = [''echo a'']
   \<and> split_lines (''echo a'' @ NL @ ''EOFSCRIPT'' @ NL @ ''reboot'')
     = [''echo a'', ''EOFSCRIPT'', ''reboot'']"
proof (intro conjI)
  have run: "\<And>c. \<not> startsWith c ''rm -f '' \<Longrightarrow>
                sample_ssh sample_conn c = Inr \<lparr>code = 0, stdout = ''done'', stderr = []\<rparr>"
    by (simp add: sample_ssh_def)
  have all: "\<And>content. content \<noteq> [] \<Longrightarrow>
      snd (executeScript sample_ssh sample_now (Some sample_conn) (Some content) None ''check'')
       = [writeCmd ''/tmp/check_1700000000000.sh'' content,
          ''chmod +x /tmp/check_1700000000000.sh'', ''sudo /tmp/check_1700000000000.sh'',
          ''rm -f /tmp/check_1700000000000.sh'']"
    by (simp add: executeScript_def executeScript_try_def truthy_def str_def sample_path Let_def
          run writeCmd_def chmodCmd_def sudoCmd_def rmCmd_def startsWith_def)
  show "snd (executeScript sample_ssh sample_now (Some sample_conn) (Some ''exit 0'') None ''check'') ! 2
     = ''sudo /tmp/check_1700000000000.sh''"
    by (simp add: all)
  show "snd (executeScript sample_ssh sample_now (Some sample_conn) (Some ''exit 1'') None ''check'') ! 2
     = ''sudo /tmp/check_1700000000000.sh''"
    by (simp add: all)
  show "heredoc_body (hd (snd (executeScript sample_ssh sample_now (Some sample_conn)
        (Some (''echo a'' @ NL @ ''EOFSCRIPT'' @ NL @ ''reboot'')) None ''check'')))
     = [''echo a'']"
    by (simp add: all NL_def) (simp add: heredoc_body_def writeCmd_def NL_def split_lines_def)
  show "split_lines (''echo a'' @ NL @ ''EOFSCRIPT'' @ NL @ ''reboot'')
     = [''echo a'', ''EOFSCRIPT'', ''reboot'']"
    by (simp add: NL_def split_lines_def)
qed

section \<open>Properties of the session state machine\<close>

subsection \<open>Frame lemmas for the tables\<close>

lemma updateProgress_frame [simp]:
  "vm_assignments (updateProgress d sid qid st) = vm_assignments d"
  "attempts (updateProgress d sid qid st) = attempts d"
  "questions (updateProgress d sid qid st) = questions d"
  "users (updateProgress d sid qid st) = users d"
  "progress_rows (updateProgress d sid qid st) sid = \<lparr>current_qid = Some qid, started = st\<rparr>"
  "sid' \<noteq> sid \<Longrightarrow> progress_rows (updateProgress d sid qid st) sid' = progress_rows d sid'"
  by (simp_all add: updateProgress_def)

lemma recordAttempt_frame [simp]:
  "vm_assignments (recordAttempt d sid qid p out err output) = vm_assignments d"
  "progress_rows (recordAttempt d sid qid p out err output) = progress_rows d"
  "questions (recordAttempt d sid qid p out err output) = questions d"
  "users (recordAttempt d sid qid p out err output) = users d"
  by (simp_all add: recordAttempt_def)

lemma getVmAssignment_updateProgress [simp]:
  "getVmAssignment (updateProgress d sid qid st) sid' = getVmAssignment d sid'"
  by (simp add: getVmAssignment_def)

lemma getQuestions_updateProgress [simp]:
  "getQuestions (updateProgress d sid qid st) b = getQuestions d b"
  by (simp add: getQuestions_def)

lemma getStudentVmConn_updateProgress [simp]:
  "getStudentVmConn ev (updateProgress d sid qid st) sid' = getStudentVmConn ev d sid'"
  by (simp add: getStudentVmConn_def)

lemma inject_fault_updateProgress [simp]:
  "inject_fault ev (updateProgress d sid qid st) sid' q warning = inject_fault ev d sid' q warning"
  by (simp add: inject_fault_def)

subsection \<open>\<open>trim\<close>\<close>

lemma strip_no_prefix: "p \<in> set ps \<Longrightarrow> p \<noteq> [] \<Longrightarrow> \<not> startsWith (strip ps s) p"
proof (induction ps s rule: strip.induct)
  case (1 ps s)
  show ?case
  proof (cases "find (\<lambda>p. p \<noteq> [] \<and> startsWith s p) ps")
    case None
    then have "strip ps s = s" by (simp add: strip.simps)
    moreover from None 1(2,3) have "\<not> startsWith s p" by (auto simp: find_None_iff)
    ultimately show ?thesis by simp
  next
    case (Some q)
    then have "strip ps s = strip ps (drop (length q) s)" by (subst strip.simps) simp
    with 1(1)[OF Some 1(2,3)] show ?thesis by simp
  qed
qed

lemma strip_removed: "\<exists>pre. set pre \<subseteq> set ps \<and> s = concat pre @ strip ps s"
proof (induction ps s rule: strip.induct)
  case (1 ps s)
  show ?case
  proof (cases "find (\<lambda>p. p \<noteq> [] \<and> startsWith s p) ps")
    case None
    then have "strip ps s = s" by (simp add: strip.simps)
    then show ?thesis by (intro exI[of _ "[]"]) simp
  next
    case (Some q)
    then have eq: "strip ps s = strip ps (drop (length q) s)" by (subst strip.simps) simp
    from Some have q: "q \<in> set ps" "take (length q) s = q"
      by (auto simp: find_Some_iff startsWith_def)
    from 1[OF Some] obtain pre where pre: "set pre \<subseteq> set ps"
      "drop (length q) s = concat pre @ strip ps (drop (length q) s)" by blast
    have "s = q @ drop (length q) s" using q(2) append_take_drop_id[of "length q" s] by simp
    with pre(2) eq have "s = concat (q # pre) @ strip ps s" by simp
    with pre(1) q(1) show ?thesis by (intro exI[of _ "q # pre"]) simp
  qed
qed

lemma rev_split: "rev u = a @ b \<Longrightarrow> u = rev b @ rev a"
  by (metis rev_append rev_rev_ident)

lemma WHITE_SPACE_nonempty: "p \<in> set WHITE_SPACE \<Longrightarrow> p \<noteq> []"
  by (auto simp: WHITE_SPACE_def)

text \<open>
  \<open>trim\<close> takes white space, and nothing else, off both ends, and leaves none at either
  end.
\<close>

lemma trim_removed:
  "\<exists>front back. set front \<subseteq> set WHITE_SPACE \<and> set back \<subseteq> set WHITE_SPACE
               \<and> s = concat front @ trim s @ concat back"
proof -
  from strip_removed[of WHITE_SPACE s] obtain front where
    f: "set front \<subseteq> set WHITE_SPACE" "s = concat front @ trimStart s"
    unfolding trimStart_def by blast
  from strip_removed[of "map rev WHITE_SPACE" "rev (trimStart s)"] obtain rb where
    b: "set rb \<subseteq> set (map rev WHITE_SPACE)"
       "rev (trimStart s) = concat rb @ strip (map rev WHITE_SPACE) (rev (trimStart s))"
    by blast
  from rev_split[OF b(2)] have "trimStart s = trim s @ rev (concat rb)"
    by (simp add: trim_def trimEnd_def)
  also have "rev (concat rb) = concat (map rev (rev rb))" by (simp add: rev_concat)
  finally have t: "trimStart s = trim s @ concat (map rev (rev rb))" .
  have "set (map rev (rev rb)) \<subseteq> set WHITE_SPACE" using b(1) by auto
  with f t show ?thesis
    by (intro exI[of _ front] exI[of _ "map rev (rev rb)"]) simp
qed

lemma trim_ends:
  assumes "p \<in> set WHITE_SPACE"
  shows "\<not> startsWith (trim s) p" and "\<not> startsWith (rev (trim s)) (rev p)"
proof -
  have ne: "p \<noteq> []" using assms by (rule WHITE_SPACE_nonempty)
  show "\<not> startsWith (rev (trim s)) (rev p)"
    using strip_no_prefix[of "rev p" "map rev WHITE_SPACE" "rev (trimStart s)"] assms ne
    by (simp add: trim_def trimEnd_def)
  from strip_removed[of "map rev WHITE_SPACE" "rev (trimStart s)"] obtain rb where
    "rev (trimStart s) = concat rb @ strip (map rev WHITE_SPACE) (rev (trimStart s))"
    by blast
  from rev_split[OF this] have t: "trimStart s = trim s @ rev (concat rb)"
    by (simp add: trim_def trimEnd_def)
  show "\<not> startsWith (trim s) p"
  proof
    assume "startsWith (trim s) p"
    then have tk: "take (length p) (trim s) = p" by (simp add: startsWith_def)
    have "length (take (length p) (trim s)) \<le> length (trim s)" by simp
    with tk have "length p \<le> length (trim s)" by simp
    with tk have "take (length p) (trim s @ rev (concat rb)) = p" by simp
    with t have "startsWith (trimStart s) p" by (simp add: startsWith_def)
    with strip_no_prefix[OF assms ne, of s] show False by (simp add: trimStart_def)
  qed
qed

lemma trim_done: "trim ''done'' = ''done''"
  by (simp add: trim_def trimStart_def trimEnd_def strip.simps WHITE_SPACE_def startsWith_def)

text \<open>Ideographic space before and a no-break space and a line feed after.\<close>

lemma trim_unicode:
  "trim ([CHR 0xE3, CHR 0x80, CHR 0x80] @ ''done'' @ [CHR 0xC2, CHR 0xA0, CHR 0x0A]) = ''done''"
  by (simp add: trim_def trimStart_def trimEnd_def strip.simps WHITE_SPACE_def startsWith_def)

lemma shown_output_unicode:
  "shown_output \<lparr>code = c,
      stdout = [CHR 0xE3, CHR 0x80, CHR 0x80] @ ''done'' @ [CHR 0xC2, CHR 0xA0],
      stderr = e\<rparr> = ''done''"
  by (simp add: shown_output_def trim_def trimStart_def trimEnd_def strip.simps WHITE_SPACE_def
        startsWith_def)

lemma shown_done: "shown_output \<lparr>code = c, stdout = ''done'', stderr = e\<rparr> = ''done''"
  by (simp add: shown_output_def trim_done)

subsection \<open>\<open>start\<close>\<close>

lemma start_assign_existing:
  "getVmAssignment (store w) (u_id u) = Some a \<Longrightarrow> start_assign ev u w = Inr (Some a, w)"
  by (simp add: start_assign_def)

text \<open>What \<open>start\<close> does for a student who has a VM and a non-empty question bank.\<close>

lemma student_start_existing:
  assumes "authorize ''student'' session_user = Inr u"
    and "getVmAssignment (store w) (u_id u) = Some a"
    and "getQuestions (store w) True = first # rest"
  shows "student_start ev session_user w =
     (Some (StartReply (q_id first) (fault_id first)
        (fst (inject_fault ev (store w) (u_id u) first MSG_WARN_START)) (va_vmid a) (vm_ip a)),
      w\<lparr>store := updateProgress (store w) (u_id u) (q_id first) True,
        ssh_log := ssh_log w @ snd (inject_fault ev (store w) (u_id u) first MSG_WARN_START)\<rparr>)"
  using assms by (simp add: student_start_def start_assign_existing Let_def)

lemma student_start_existing_frame:
  assumes "authorize ''student'' session_user = Inr u"
    and "getVmAssignment (store w) (u_id u) = Some a"
  shows "queue_units (snd (student_start ev session_user w)) = queue_units w"
    and "vm_assignments (store (snd (student_start ev session_user w))) = vm_assignments (store w)"
  using assms
  by (simp_all add: student_start_def start_assign_existing Let_def split: list.splits)

lemma provision_unit_assignments:
  "fst (provision_unit ev sid uname d) = Some (Inr d') \<Longrightarrow>
   \<exists>a. va_student_id a = sid \<and> snapshot_name a = ''clean_start''
       \<and> vm_assignments d' = vm_assignments d @ [a]"
  by (auto simp: provision_unit_def Let_def createVmAssignment_def
           split: prod.splits sum.splits option.splits)

lemma getVmAssignment_None: 
  "getVmAssignment d sid = None \<longleftrightarrow> sid \<notin> set (map va_student_id (vm_assignments d))"
  by (auto simp: getVmAssignment_def find_None_iff)

lemma start_assign_assignments:
  "start_assign ev u w = Inl (f, w') \<Longrightarrow> store w' = store w"
  "start_assign ev u w = Inr (x, w') \<Longrightarrow>
     vm_assignments (store w') = vm_assignments (store w) \<or>
     (getVmAssignment (store w) (u_id u) = None \<and>
      (\<exists>a. va_student_id a = u_id u \<and> snapshot_name a = ''clean_start''
           \<and> vm_assignments (store w') = vm_assignments (store w) @ [a]))"
   apply (auto simp: start_assign_def pveQueue_add_def split: option.splits list.splits sum.splits)
  apply (drule provision_unit_assignments)
  apply auto
  done

lemma student_start_assignments:
  "vm_assignments (store (snd (student_start ev s w))) = vm_assignments (store w) \<or>
   (\<exists>u a. authorize ''student'' s = Inr u \<and> getVmAssignment (store w) (u_id u) = None
        \<and> va_student_id a = u_id u \<and> snapshot_name a = ''clean_start''
        \<and> vm_assignments (store (snd (student_start ev s w))) = vm_assignments (store w) @ [a])"
proof (cases "authorize ''student'' s")
  case (Inl f)
  then show ?thesis by (simp add: student_start_def)
next
  case (Inr u)
  show ?thesis
  proof (cases "start_assign ev u w")
    case l: (Inl fw)
    obtain f w1 where fw: "fw = (f, w1)" by (cases fw)
    from start_assign_assignments(1)[of ev u w f w1] l fw Inr show ?thesis
      by (simp add: student_start_def)
  next
    case r: (Inr xw)
    obtain x w1 where xw: "xw = (x, w1)" by (cases xw)
    from start_assign_assignments(2)[of ev u w x w1] r xw Inr
    show ?thesis
      by (auto simp: student_start_def Let_def split: list.splits option.splits)
  qed
qed

text \<open>No other operation writes \<open>vm_assignments\<close>.\<close>

lemma student_verify_assignments:
  "vm_assignments (store (snd (student_verify ev s qid w))) = vm_assignments (store w)"
  by (simp add: student_verify_def split: sum.splits option.splits prod.splits)

lemma student_next_assignments:
  "vm_assignments (store (snd (student_next ev s w))) = vm_assignments (store w)"
  by (simp add: student_next_def Let_def pveQueue_add_def split: sum.splits option.splits prod.splits)

lemma run_call_snd:
  "snd (run_call (CallStart ev s) w) = snd (student_start ev s w)"
  "snd (run_call (CallVerify ev s qid) w) = snd (student_verify ev s qid w)"
  "snd (run_call (CallNext ev s) w) = snd (student_next ev s w)"
  by (simp_all split: prod.splits)

lemma run_call_one_vm:
  "one_vm_per_student (store w) \<Longrightarrow> one_vm_per_student (store (snd (run_call c w)))"
proof (cases c)
  case (CallStart ev s)
  assume inv: "one_vm_per_student (store w)"
  from student_start_assignments[of ev s w] inv show ?thesis
    unfolding CallStart run_call_snd
    by (auto simp: one_vm_per_student_def getVmAssignment_None)
next
  case (CallVerify ev s qid)
  assume "one_vm_per_student (store w)"
  then show ?thesis unfolding CallVerify run_call_snd
    by (simp add: one_vm_per_student_def student_verify_assignments)
next
  case (CallNext ev s)
  assume "one_vm_per_student (store w)"
  then show ?thesis unfolding CallNext run_call_snd
    by (simp add: one_vm_per_student_def student_next_assignments)
qed

text \<open>A property of the state that every call keeps holds after every run.\<close>

lemma run_calls_induct:
  assumes step: "\<And>c w. P w \<Longrightarrow> P (snd (run_call c w))"
  shows "P w \<Longrightarrow> P (run_calls cs w)"
proof (induction cs arbitrary: w)
  case Nil
  then show ?case by simp
next
  case (Cons c cs)
  obtain r w' where rc: "run_call c w = (r, w')" by (cases "run_call c w")
  from step[OF Cons.prems, of c] rc have p: "P w'" by simp
  show ?case
  proof (cases r)
    case None
    with rc p show ?thesis by simp
  next
    case (Some x)
    with rc Cons.IH[OF p] show ?thesis by simp
  qed
qed

lemma run_calls_one_vm:
  "one_vm_per_student (store w) \<Longrightarrow> one_vm_per_student (store (run_calls cs w))"
  by (rule run_calls_induct[where P="\<lambda>w. one_vm_per_student (store w)"])
     (rule run_call_one_vm)

text \<open>
  C1. When \<open>getVmAssignment\<close> finds a row for the student, \<open>start\<close> admits no unit to the
  queue (so no clone, start or snapshot is sent) and leaves \<open>vm_assignments\<close> as it is;
  a unit is admitted only when \<open>getVmAssignment\<close> returned \<open>null\<close>. Hence over any
  sequence of \<open>start\<close>, \<open>verify\<close> and \<open>next\<close> calls made one after the other, a table
  with at most one row per student stays so.
\<close>

theorem start_provisions_once:
  "(authorize ''student'' session_user = Inr u \<longrightarrow> getVmAssignment (store w) (u_id u) \<noteq> None \<longrightarrow>
      queue_units (snd (student_start ev session_user w)) = queue_units w
      \<and> vm_assignments (store (snd (student_start ev session_user w))) = vm_assignments (store w))
   \<and> (queue_units (snd (student_start ev session_user w)) \<noteq> queue_units w \<longrightarrow>
        (\<exists>u. authorize ''student'' session_user = Inr u \<and> getVmAssignment (store w) (u_id u) = None))
   \<and> (one_vm_per_student (store w) \<longrightarrow> one_vm_per_student (store (run_calls calls w)))"
proof (intro conjI impI)
  assume "authorize ''student'' session_user = Inr u" "getVmAssignment (store w) (u_id u) \<noteq> None"
  then show "queue_units (snd (student_start ev session_user w)) = queue_units w"
    and "vm_assignments (store (snd (student_start ev session_user w))) = vm_assignments (store w)"
    by (auto simp: student_start_existing_frame)
next
  assume ch: "queue_units (snd (student_start ev session_user w)) \<noteq> queue_units w"
  show "\<exists>u. authorize ''student'' session_user = Inr u \<and> getVmAssignment (store w) (u_id u) = None"
  proof (cases "authorize ''student'' session_user")
    case (Inl f)
    with ch show ?thesis by (simp add: student_start_def)
  next
    case (Inr u)
    with ch student_start_existing_frame(1)[OF Inr, of w _ ev] show ?thesis
      by (cases "getVmAssignment (store w) (u_id u)") auto
  qed
next
  assume "one_vm_per_student (store w)"
  then show "one_vm_per_student (store (run_calls calls w))" by (rule run_calls_one_vm)
qed


text \<open>The sample control plane at work: Alice's first \<open>start\<close> provisions VM 101.\<close>

lemma sample_task_ok: "waitForTask (sample_task ''OK'') DEFAULT_TIMEOUT = Some (Inr True)"
proof -
  let ?t = "sample_task ''OK''"
  have r0: "still_running (?t 0)" and r1: "still_running (?t (Suc 0))"
    and s2: "\<not> still_running (?t (Suc (Suc 0)))"
    by (simp_all add: sample_task_def still_running_def)
  have ms: "answer_ms (?t 0) = 150" "answer_ms (?t (Suc 0)) = 150"
    by (simp_all add: sample_task_def answer_ms_def)
  have "waitForTask_loop ?t 300000 0 0 = waitForTask_loop ?t 300000 2150 (Suc 0)"
    using loop_run[of 0 300000 ?t 0, OF _ r0] by (simp add: ms)
  also have "\<dots> = waitForTask_loop ?t 300000 4300 (Suc (Suc 0))"
    using loop_run[of 2150 300000 ?t "Suc 0", OF _ r1] by (simp add: ms)
  also have "map_option fst \<dots> = Some (Inr True)"
    using loop_decide(1)[where task="?t" and k="Suc (Suc 0)" and elapsed=4300 and T=300000, OF _ s2]
    by (simp add: sample_task_def reports_ok_def)
  finally show ?thesis by (simp add: waitForTask_def DEFAULT_TIMEOUT_def)
qed

lemma sample_post: "post_and_wait sample_pve c = (Some (Inr ''UPID:1''), [c])"
  using sample_task_ok by (simp add: post_and_wait_def sample_pve_def)

lemma sample_ticket: "pve_ticket sample_pve = Inr ()" 
  by (simp add: sample_pve_def)

lemma sample_provision:
  "provision_unit sample_env 7 ''alice'' fresh_db =
     (Some (Inr (fresh_db\<lparr>vm_assignments := [alice_vm]\<rparr>)),
      [Clone 101 ''student-alice-7'', StartVM 101, Snapshot 101 ''clean_start''])"
proof -
  have ip: "getVMIP sample_pve 101 = Some ''10.0.0.5''"
    by (simp add: getVMIP_def getVMStatus_def sample_pve_def sample_status_def startsWith_def)
  have id: "getNextVMID sample_pve = Inr 101"
    by (simp add: getNextVMID_def sample_pve_def)
  have name: "''student-'' @ ''alice'' @ ''-'' @ show_nat 7 = ''student-alice-7''"
    by (simp add: show_nat.simps digit_def)
  show ?thesis
    unfolding provision_unit_def name Let_def
    by (simp add: cloneVM_def startVM_def createSnapshot_def sample_ticket id sample_post
          sample_env_def ip truthy_def createVmAssignment_def fresh_db_def alice_vm_def)
qed

lemma alice_conn: "getStudentVmConn sample_env (store (active_world q atts)) 7 = Some sample_conn"
  by (simp add: getStudentVmConn_def getVmAssignment_def active_world_def alice_vm_def
        sample_env_def truthy_def str_def sample_conn_def)

lemma sample_fault_path: "tempPath ''fault'' sample_now = ''/tmp/fault_1700000000000.sh''"
  by (simp add: tempPath_def sample_now_def show_nat.simps digit_def)

lemma sample_run: "\<not> startsWith c ''rm -f '' \<Longrightarrow>
    sample_ssh conn c = Inr \<lparr>code = 0, stdout = ''done'', stderr = []\<rparr>"
  by (simp add: sample_ssh_def)

lemma sample_inline:
  "content \<noteq> [] \<Longrightarrow>
   executeScript sample_ssh sample_now (Some sample_conn) (Some content) p ''fault''
     = (Inr \<lparr>code = 0, stdout = ''done'', stderr = []\<rparr>,
        [writeCmd ''/tmp/fault_1700000000000.sh'' content,
         ''chmod +x /tmp/fault_1700000000000.sh'', ''sudo /tmp/fault_1700000000000.sh'',
         ''rm -f /tmp/fault_1700000000000.sh''])"
  by (simp add: executeScript_def executeScript_try_def truthy_def str_def sample_fault_path
        Let_def sample_run writeCmd_def chmodCmd_def sudoCmd_def rmCmd_def startsWith_def)

lemma sample_env_fields:
  "hypervisor sample_env = sample_pve" "run_ssh sample_env = sample_ssh"
  "date_now sample_env = sample_now"
  by (simp_all add: sample_env_def)

lemma sample_first_start:
  "student_start sample_env (Some alice) fresh_world
     = (Some (StartReply 1 ''f1'' ''done'' 101 (Some ''10.0.0.5'')), started_world)"
proof -
  have a: "authorize ''student'' (Some alice) = Inr alice"
    by (simp add: authorize_def alice_def)
  have id: "u_id alice = 7" "u_username alice = ''alice''" by (simp_all add: alice_def)
  have none: "getVmAssignment fresh_db 7 = None"
    by (simp add: getVmAssignment_def fresh_db_def)
  have qs: "getQuestions fresh_db True = [E1, E2]"
    by (simp add: getQuestions_def fresh_db_def E1_def E2_def)
  have st: "store fresh_world = fresh_db" "queue_units fresh_world = []" "ssh_log fresh_world = []"
    by (simp_all add: fresh_world_def)
  have asg: "start_assign sample_env alice fresh_world
     = Inr (Some alice_vm,
            fresh_world\<lparr>store := fresh_db\<lparr>vm_assignments := [alice_vm]\<rparr>,
                        queue_units := [[Clone 101 ''student-alice-7'', StartVM 101,
                                         Snapshot 101 ''clean_start'']]\<rparr>)"
    unfolding start_assign_def id st none qs sample_provision
    by (simp add: pveQueue_add_def getVmAssignment_def alice_vm_def)
  have qs2: "getQuestions (fresh_db\<lparr>vm_assignments := [alice_vm]\<rparr>) True = [E1, E2]"
    by (simp add: getQuestions_def fresh_db_def E1_def E2_def)
  have conn: "getStudentVmConn sample_env (fresh_db\<lparr>vm_assignments := [alice_vm]\<rparr>) 7
                = Some sample_conn"
    by (simp add: getStudentVmConn_def getVmAssignment_def alice_vm_def
          sample_env_def truthy_def str_def sample_conn_def)
  have inj: "inject_fault sample_env (fresh_db\<lparr>vm_assignments := [alice_vm]\<rparr>) 7 E1 MSG_WARN_START
      = (''done'', map (Pair sample_conn)
          [writeCmd ''/tmp/fault_1700000000000.sh'' ''systemctl stop nginx'',
           ''chmod +x /tmp/fault_1700000000000.sh'', ''sudo /tmp/fault_1700000000000.sh'',
           ''rm -f /tmp/fault_1700000000000.sh''])"
    unfolding inject_fault_def conn option.case sample_env_fields
    by (simp add: E1_def sample_inline shown_done)
  show ?thesis
    unfolding student_start_def a sum.case asg prod.case
    by (simp add: qs2 Let_def inj id)
       (simp add: E1_def alice_vm_def started_world_def fresh_world_def updateProgress_def)
qed

text \<open>Alice calls \<open>start\<close> twice in a row.\<close>

theorem start_provisions_once_witness:
  "queue_units (run_calls [CallStart sample_env (Some alice), CallStart sample_env (Some alice)]
       fresh_world)
     = [[Clone 101 ''student-alice-7'', StartVM 101, Snapshot 101 ''clean_start'']]
   \<and> vm_assignments (store (run_calls
        [CallStart sample_env (Some alice), CallStart sample_env (Some alice)] fresh_world))
     = [alice_vm]
   \<and> one_vm_per_student (store (run_calls
        [CallStart sample_env (Some alice), CallStart sample_env (Some alice)] fresh_world))"
proof -
  have a: "authorize ''student'' (Some alice) = Inr alice"
    by (simp add: authorize_def alice_def)
  have g: "getVmAssignment (store started_world) (u_id alice) \<noteq> None"
    by (simp add: getVmAssignment_def started_world_def alice_vm_def alice_def)
  have i: "one_vm_per_student (store fresh_world)"
    by (simp add: one_vm_per_student_def fresh_world_def fresh_db_def)
  have r: "run_calls [CallStart sample_env (Some alice), CallStart sample_env (Some alice)]
             fresh_world = snd (student_start sample_env (Some alice) started_world)"
    by (simp add: sample_first_start split: prod.splits option.splits)
  from start_provisions_once [of "Some alice" alice started_world sample_env,
         THEN conjunct1, rule_format, OF a g]
       start_provisions_once [of "Some alice" alice fresh_world sample_env
         "[CallStart sample_env (Some alice), CallStart sample_env (Some alice)]",
         THEN conjunct2, THEN conjunct2, rule_format, OF i]
  show ?thesis
    unfolding r by (simp add: started_world_def)
qed

text \<open>
  C10. For a student who already has a VmAssignment, and with at least one enabled
  exercise, \<open>start\<close> admits nothing to the queue (no clone, snapshot or rollback), sets
  the student's Progress to the first enabled exercise with \<open>started = true\<close> whatever it
  was before, answers with that exercise and the stored VM, and, when a connection to
  the VM can be resolved, runs the first exercise's fault script there as the only remote
  commands of the call.
\<close>

theorem restart_resets_progress:
  assumes "authorize ''student'' session_user = Inr u"
    and "getVmAssignment (store w) (u_id u) = Some a"
    and "getQuestions (store w) True = first # rest"
  shows "queue_units (snd (student_start ev session_user w)) = queue_units w
    \<and> getProgress (store (snd (student_start ev session_user w))) (u_id u)
        = \<lparr>current_qid = Some (q_id first), started = True\<rparr>
    \<and> (\<exists>out. fst (student_start ev session_user w)
          = Some (StartReply (q_id first) (fault_id first) out (va_vmid a) (vm_ip a)))
    \<and> ssh_log (snd (student_start ev session_user w))
        = ssh_log w @
          (case getStudentVmConn ev (store w) (u_id u) of
             None \<Rightarrow> []
           | Some conn \<Rightarrow>
               map (Pair conn)
                 (snd (executeScript (run_ssh ev) (date_now ev) (Some conn)
                         (fault_script first) (fault_path first) ''fault'')))"
  unfolding student_start_existing[OF assms]
  by (simp add: getProgress_def inject_fault_def split: option.splits prod.splits sum.splits)

text \<open>Alice, already on exercise 2, calls \<open>start\<close> again.\<close>

theorem restart_resets_progress_witness:
  "queue_units (snd (student_start sample_env (Some alice) (active_world 2 [pass_of 1])))
     = queue_units (active_world 2 [pass_of 1])
   \<and> getProgress (store (snd (student_start sample_env (Some alice)
        (active_world 2 [pass_of 1])))) 7 = \<lparr>current_qid = Some 1, started = True\<rparr>
   \<and> ssh_log (snd (student_start sample_env (Some alice) (active_world 2 [pass_of 1])))
     = map (Pair sample_conn)
        [writeCmd ''/tmp/fault_1700000000000.sh'' ''systemctl stop nginx'',
         ''chmod +x /tmp/fault_1700000000000.sh'', ''sudo /tmp/fault_1700000000000.sh'',
         ''rm -f /tmp/fault_1700000000000.sh'']"
proof -
  have a: "authorize ''student'' (Some alice) = Inr alice"
    by (simp add: authorize_def alice_def)
  have g: "getVmAssignment (store (active_world 2 [pass_of 1])) (u_id alice) = Some alice_vm"
    by (simp add: getVmAssignment_def active_world_def alice_vm_def alice_def)
  have q: "getQuestions (store (active_world 2 [pass_of 1])) True = E1 # [E2]"
    by (simp add: getQuestions_def active_world_def fresh_db_def E1_def E2_def)
  have id: "u_id alice = 7" by (simp add: alice_def)
  have inj: "executeScript (run_ssh sample_env) (date_now sample_env) (Some sample_conn)
                 (Some ''systemctl stop nginx'') None ''fault''
      = (Inr \<lparr>code = 0, stdout = ''done'', stderr = []\<rparr>,
        [writeCmd ''/tmp/fault_1700000000000.sh'' ''systemctl stop nginx'',
         ''chmod +x /tmp/fault_1700000000000.sh'', ''sudo /tmp/fault_1700000000000.sh'',
         ''rm -f /tmp/fault_1700000000000.sh''])"
    by (simp add: sample_env_def sample_inline)
  from restart_resets_progress [OF a g q, of sample_env]
  show ?thesis
    unfolding id alice_conn
    by (simp add: E1_def inj) (simp add: active_world_def)
qed

subsection \<open>\<open>next\<close>\<close>







text \<open>The shape of a \<open>next\<close> that gets past its guards.\<close>

lemma student_next_cases:
  assumes "authorize ''student'' s = Inr u"
  shows "(\<exists>f. student_next ev s w = (Some (Failure f), w)
            \<and> f \<in> {NotStarted, NotPassed, VmUnassigned})
    \<or> student_next ev s w = (Some NextDone, w)
    \<or> (\<exists>a nxt. started (getProgress (store w) (u_id u))
          \<and> at_index (getQuestions (store w) True)
               (findIndex (\<lambda>q. Some (q_id q) = current_qid (getProgress (store w) (u_id u)))
                  (getQuestions (store w) True) + 1) = Some nxt
          \<and> getQuestionStatus (store w) (u_id u) (current_qid (getProgress (store w) (u_id u)))
               = ''passed''
          \<and> getVmAssignment (store w) (u_id u) = Some a
          \<and> (case rollbackToSnapshot (hypervisor ev) (va_vmid a) (snapshot_name a) of
                (None, calls) \<Rightarrow>
                  student_next ev s w = (None, w\<lparr>queue_units := queue_units w @ [calls]\<rparr>)
              | (Some (Inl e), calls) \<Rightarrow>
                  student_next ev s w
                    = (Some (Failure (Internal (message e))),
                       w\<lparr>queue_units := queue_units w @ [calls]\<rparr>)
              | (Some (Inr t), calls) \<Rightarrow>
                  student_next ev s w
                    = (Some (NextReply (q_id nxt) (fault_id nxt)
                               (fst (inject_fault ev (store w) (u_id u) nxt MSG_WARN_NEXT))),
                       w\<lparr>store := updateProgress (store w) (u_id u) (q_id nxt) True,
                         queue_units := queue_units w @ [calls],
                         ssh_log := ssh_log w
                           @ snd (inject_fault ev (store w) (u_id u) nxt MSG_WARN_NEXT)\<rparr>)))"
  using assms
  by (auto simp: student_next_def Let_def pveQueue_add_def
           split: option.splits sum.splits prod.splits)

text \<open>The conditions under which \<open>next\<close> is analysed are invariants of the three operations.\<close>

lemma provision_unit_frame:
  "fst (provision_unit ev sid uname d) = Some (Inr d') \<Longrightarrow>
   questions d' = questions d \<and> progress_rows d' = progress_rows d \<and> attempts d' = attempts d"
  by (auto simp: provision_unit_def Let_def createVmAssignment_def
           split: prod.splits sum.splits option.splits)

lemma getQuestions_cong: "questions d' = questions d \<Longrightarrow> getQuestions d' b = getQuestions d b"
  by (simp add: getQuestions_def)

lemma start_assign_frame:
  "start_assign ev u w = Inr (x, w') \<Longrightarrow>
   questions (store w') = questions (store w) \<and> progress_rows (store w') = progress_rows (store w)"
  by (auto simp: start_assign_def pveQueue_add_def split: option.splits list.splits sum.splits
           dest!: provision_unit_frame)

text \<open>What \<open>start\<close> can do to the exercises and to Progress.\<close>

lemma student_start_progress:
  "questions (store (snd (student_start ev s w))) = questions (store w) \<and>
   (progress_rows (store (snd (student_start ev s w))) = progress_rows (store w)
    \<or> (\<exists>u first rest. authorize ''student'' s = Inr u
          \<and> getQuestions (store w) True = first # rest
          \<and> progress_rows (store (snd (student_start ev s w)))
              = (progress_rows (store w))(u_id u := \<lparr>current_qid = Some (q_id first), started = True\<rparr>)))"
proof (cases "authorize ''student'' s")
  case (Inl f)
  then show ?thesis by (simp add: student_start_def)
next
  case (Inr u)
  show ?thesis
  proof (cases "start_assign ev u w")
    case l: (Inl fw)
    obtain f w1 where fw: "fw = (f, w1)" by (cases fw)
    from start_assign_assignments(1)[of ev u w f w1] l fw Inr show ?thesis
      by (simp add: student_start_def)
  next
    case r: (Inr xw)
    obtain x w1 where xw: "xw = (x, w1)" by (cases xw)
    from start_assign_frame[of ev u w x w1] r xw
    have f: "questions (store w1) = questions (store w)"
      "progress_rows (store w1) = progress_rows (store w)" by simp_all
    have g: "getQuestions (store w1) True = getQuestions (store w) True"
      using f(1) by (rule getQuestions_cong)
    show ?thesis
      using Inr r xw f g
      by (auto simp: student_start_def Let_def updateProgress_def split: list.splits option.splits)
  qed
qed

lemma student_verify_progress:
  "questions (store (snd (student_verify ev s qid w))) = questions (store w) \<and>
   progress_rows (store (snd (student_verify ev s qid w))) = progress_rows (store w)"
  by (simp add: student_verify_def split: sum.splits option.splits prod.splits)

lemma at_index_mem: "at_index xs i = Some x \<Longrightarrow> x \<in> set xs"
  by (auto simp: at_index_def split: if_splits)

lemma student_next_progress:
  "questions (store (snd (student_next ev s w))) = questions (store w) \<and>
   (progress_rows (store (snd (student_next ev s w))) = progress_rows (store w)
    \<or> (\<exists>u nxt. authorize ''student'' s = Inr u
          \<and> nxt \<in> set (getQuestions (store w) True)
          \<and> progress_rows (store (snd (student_next ev s w)))
              = (progress_rows (store w))(u_id u := \<lparr>current_qid = Some (q_id nxt), started = True\<rparr>)))"
proof (cases "authorize ''student'' s")
  case (Inl f)
  then show ?thesis by (simp add: student_next_def)
next
  case (Inr u)
  from student_next_cases[OF Inr, of ev w] show ?thesis
  proof (elim disjE exE conjE)
    fix a nxt
    assume n: "at_index (getQuestions (store w) True)
               (findIndex (\<lambda>q. Some (q_id q) = current_qid (getProgress (store w) (u_id u)))
                  (getQuestions (store w) True) + 1) = Some nxt"
      and c: "(case rollbackToSnapshot (hypervisor ev) (va_vmid a) (snapshot_name a) of
                (None, calls) \<Rightarrow>
                  student_next ev s w = (None, w\<lparr>queue_units := queue_units w @ [calls]\<rparr>)
              | (Some (Inl e), calls) \<Rightarrow>
                  student_next ev s w
                    = (Some (Failure (Internal (message e))),
                       w\<lparr>queue_units := queue_units w @ [calls]\<rparr>)
              | (Some (Inr t), calls) \<Rightarrow>
                  student_next ev s w
                    = (Some (NextReply (q_id nxt) (fault_id nxt)
                               (fst (inject_fault ev (store w) (u_id u) nxt MSG_WARN_NEXT))),
                       w\<lparr>store := updateProgress (store w) (u_id u) (q_id nxt) True,
                         queue_units := queue_units w @ [calls],
                         ssh_log := ssh_log w
                           @ snd (inject_fault ev (store w) (u_id u) nxt MSG_WARN_NEXT)\<rparr>))"
    from at_index_mem[OF n] have m: "nxt \<in> set (getQuestions (store w) True)" .
    obtain res calls where
      rb: "rollbackToSnapshot (hypervisor ev) (va_vmid a) (snapshot_name a) = (res, calls)"
      by (cases "rollbackToSnapshot (hypervisor ev) (va_vmid a) (snapshot_name a)")
    show ?thesis
    proof (cases res)
      case None
      with c rb show ?thesis by simp
    next
      case (Some x)
      show ?thesis
      proof (cases x)
        case (Inl e)
        with c rb Some show ?thesis by simp
      next
        case (Inr t)
        with c rb Some m Inr \<open>authorize ''student'' s = Inr u\<close> show ?thesis
          by (auto simp: updateProgress_def)
      qed
    qed
  qed auto
qed

lemma current_enabled_upd:
  assumes "questions d' = questions d"
    and "progress_rows d' = (progress_rows d)(sid := \<lparr>current_qid = Some (q_id q), started = True\<rparr>)"
    and "q \<in> set (getQuestions d True)"
    and "current_enabled d x"
  shows "current_enabled d' x"
proof (cases "x = sid")
  case True
  have "getProgress d' sid = \<lparr>current_qid = Some (q_id q), started = True\<rparr>"
    by (simp add: getProgress_def assms(2))
  moreover have "getQuestions d' True = getQuestions d True"
    using assms(1) by (rule getQuestions_cong)
  ultimately show ?thesis
    unfolding True current_enabled_def list_ex_iff using assms(3) by auto
next
  case False
  then have "getProgress d' x = getProgress d x"
    by (simp add: getProgress_def assms(2))
  moreover have "getQuestions d' True = getQuestions d True"
    using assms(1) by (rule getQuestions_cong)
  ultimately show ?thesis
    using assms(4) unfolding current_enabled_def by simp
qed

lemma current_enabled_same:
  assumes "questions d' = questions d" and "progress_rows d' = progress_rows d"
    and "current_enabled d x"
  shows "current_enabled d' x"
proof -
  have "getProgress d' x = getProgress d x"
    by (simp add: getProgress_def assms(2))
  moreover have "getQuestions d' True = getQuestions d True"
    using assms(1) by (rule getQuestions_cong)
  ultimately show ?thesis
    using assms(3) unfolding current_enabled_def by simp
qed

lemma run_call_current_enabled:
  assumes "current_enabled (store w) x"
  shows "current_enabled (store (snd (run_call c w))) x"
proof (cases c)
  case (CallStart ev s)
  from student_start_progress[of ev s w] show ?thesis
    unfolding CallStart run_call_snd
  proof (elim conjE disjE exE)
    fix u first rest
    assume q: "questions (store (snd (student_start ev s w))) = questions (store w)"
      and g: "getQuestions (store w) True = first # rest"
      and p: "progress_rows (store (snd (student_start ev s w)))
              = (progress_rows (store w))(u_id u := \<lparr>current_qid = Some (q_id first), started = True\<rparr>)"
    from g have m: "first \<in> set (getQuestions (store w) True)" by simp
    show "current_enabled (store (snd (student_start ev s w))) x"
      by (rule current_enabled_upd[OF q p m assms])
  qed (rule current_enabled_same[OF _ _ assms])
next
  case (CallVerify ev s qid)
  from student_verify_progress[of ev s qid w] assms show ?thesis
    unfolding CallVerify run_call_snd by (blast intro: current_enabled_same)
next
  case (CallNext ev s)
  from student_next_progress[of ev s w] show ?thesis
    unfolding CallNext run_call_snd
  proof (elim conjE disjE exE)
    fix u nxt
    assume q: "questions (store (snd (student_next ev s w))) = questions (store w)"
      and m: "nxt \<in> set (getQuestions (store w) True)"
      and p: "progress_rows (store (snd (student_next ev s w)))
              = (progress_rows (store w))(u_id u := \<lparr>current_qid = Some (q_id nxt), started = True\<rparr>)"
    show "current_enabled (store (snd (student_next ev s w))) x"
      by (rule current_enabled_upd[OF q p m assms])
  qed (rule current_enabled_same[OF _ _ assms])
qed

lemma run_call_clean_start:
  assumes "clean_start_only (store w)"
  shows "clean_start_only (store (snd (run_call c w)))"
proof (cases c)
  case (CallStart ev s)
  from student_start_assignments[of ev s w] assms show ?thesis
    unfolding CallStart run_call_snd by (auto simp: clean_start_only_def)
next
  case (CallVerify ev s qid)
  with assms show ?thesis unfolding CallVerify run_call_snd
    by (simp add: clean_start_only_def student_verify_assignments)
next
  case (CallNext ev s)
  with assms show ?thesis unfolding CallNext run_call_snd
    by (simp add: clean_start_only_def student_next_assignments)
qed

text \<open>
  The two conditions under which \<open>next\<close> is analysed below hold of a state without VMs and
  without started students, and every call keeps them.
\<close>

lemma run_calls_invariants:
  "clean_start_only (store w) \<Longrightarrow> (\<forall>x. current_enabled (store w) x) \<Longrightarrow>
   clean_start_only (store (run_calls cs w)) \<and> (\<forall>x. current_enabled (store (run_calls cs w)) x)"
proof -
  assume a: "clean_start_only (store w)" "\<forall>x. current_enabled (store w) x"
  have "clean_start_only (store (run_calls cs w))"
    by (rule run_calls_induct[where P="\<lambda>w. clean_start_only (store w)"])
       (rule run_call_clean_start, assumption, rule a(1))
  moreover have "\<forall>x. current_enabled (store (run_calls cs w)) x"
    by (rule run_calls_induct[where P="\<lambda>w. \<forall>x. current_enabled (store w) x"])
       (simp add: run_call_current_enabled, rule a(2))
  ultimately show ?thesis by simp
qed

lemma fresh_invariants:
  "clean_start_only (store fresh_world)" "current_enabled (store fresh_world) x"
  by (simp_all add: clean_start_only_def current_enabled_def fresh_world_def fresh_db_def
        getProgress_def)


text \<open>Alice moves from exercise 1, passed, to exercise 2.\<close>

lemma alice_student: "authorize ''student'' (Some alice) = Inr alice"
  by (simp add: authorize_def alice_def)

lemma active_questions: "getQuestions (store (active_world q atts)) True = [E1, E2]"
  by (simp add: getQuestions_def active_world_def fresh_db_def E1_def E2_def)

lemma active_progress:
  "getProgress (store (active_world q atts)) 7 = \<lparr>current_qid = Some q, started = True\<rparr>"
  by (simp add: getProgress_def active_world_def)

lemma active_vm: "getVmAssignment (store (active_world q atts)) 7 = Some alice_vm"
  by (simp add: getVmAssignment_def active_world_def alice_vm_def)





text \<open>
  The same call against a control plane that leaves the third status request of the
  rollback task unanswered: the unit is admitted and its request sent, the handler never
  replies, and the tables are as they were.
\<close>

lemma stalled_rollback:
  "rollbackToSnapshot stalled_pve 101 ''clean_start'' = (None, [Rollback 101 ''clean_start''])"
  by (simp add: rollbackToSnapshot_def post_and_wait_def stalled_pve_def stalled_task_hangs)

lemma next_unanswered_on_stall:
  "student_next (sample_env\<lparr>hypervisor := stalled_pve\<rparr>) (Some alice) (active_world 1 [pass_of 1])
     = (None,
        (active_world 1 [pass_of 1])
          \<lparr>queue_units := queue_units (active_world 1 [pass_of 1])
              @ [[Rollback 101 ''clean_start'']]\<rparr>)"
proof -
  have id: "u_id alice = 7" by (simp add: alice_def)
  have idx: "q_id E1 = 1" by (simp add: E1_def)
  have st: "\<And>q. getQuestionStatus (store (active_world q [pass_of q])) 7 (Some q) = ''passed''"
    by (simp add: getQuestionStatus_def active_world_def pass_of_def)
  have vm: "va_vmid alice_vm = 101" "snapshot_name alice_vm = ''clean_start''"
    by (simp_all add: alice_vm_def)
  show ?thesis
    unfolding student_next_def alice_student
    by (simp add: id active_progress active_questions idx at_index_def st active_vm vm
          stalled_rollback pveQueue_add_def Let_def)
qed

text \<open>
  C2 on the code. Alice is on exercise 2, the last enabled one, and her latest attempt
  at it failed: \<open>next\<close> answers \<open>{ok: true, done: true}\<close> and changes nothing, because the
  test for a following exercise returns before the status is looked at. On exercise 1,
  which has a successor, the same situation is rejected.
\<close>

theorem next_done_without_pass:
  "getQuestionStatus (store (active_world 2 [fail_of 2])) 7 (Some 2) = ''failed''
   \<and> student_next sample_env (Some alice) (active_world 2 [fail_of 2])
       = (Some NextDone, active_world 2 [fail_of 2])
   \<and> getQuestionStatus (store (active_world 1 [fail_of 1])) 7 (Some 1) = ''failed''
   \<and> student_next sample_env (Some alice) (active_world 1 [fail_of 1])
       = (Some (Failure NotPassed), active_world 1 [fail_of 1])"
proof (intro conjI)
  have id: "u_id alice = 7" by (simp add: alice_def)
  have idx1: "q_id E1 = 1" and idx2: "q_id E2 = 2" by (simp_all add: E1_def E2_def)
  have u: "\<And>q. getQuestionStatus (store (active_world q [fail_of q])) 7 (Some q) = ''failed''"
    by (simp add: getQuestionStatus_def active_world_def fail_of_def)
  show "getQuestionStatus (store (active_world 2 [fail_of 2])) 7 (Some 2) = ''failed''"
    by (rule u)
  show "getQuestionStatus (store (active_world 1 [fail_of 1])) 7 (Some 1) = ''failed''"
    by (rule u)
  show "student_next sample_env (Some alice) (active_world 2 [fail_of 2])
       = (Some NextDone, active_world 2 [fail_of 2])"
    unfolding student_next_def alice_student
    by (simp add: id active_progress active_questions idx1 idx2 at_index_def)
  show "student_next sample_env (Some alice) (active_world 1 [fail_of 1])
       = (Some (Failure NotPassed), active_world 1 [fail_of 1])"
    unfolding student_next_def alice_student
    by (simp add: id active_progress active_questions idx1 at_index_def u)
qed

subsection \<open>\<open>verify\<close>\<close>

text \<open>The shape of \<open>verify\<close> on an existing exercise.\<close>

lemma student_verify_existing:
  assumes "authorize ''student'' session_user = Inr u"
    and "getQuestion (store w) qid = Some q"
  shows "student_verify ev session_user qid w =
     (case getStudentVmConn ev (store w) (u_id u) of
        None \<Rightarrow>
          (VerifyReply False MSG_DRY_RUN_REPLY,
           w\<lparr>store := recordAttempt (store w) (u_id u) qid False [] [] MSG_DRY_RUN_ATTEMPT\<rparr>)
      | Some conn \<Rightarrow>
          (case executeScript (run_ssh ev) (date_now ev) (Some conn)
                  (check_script q) (check_path q) ''check'' of
             (Inr r, cmds) \<Rightarrow>
               (VerifyReply (code r = 0) (shown_output r),
                w\<lparr>store := recordAttempt (store w) (u_id u) qid (code r = 0)
                             (stdout r) (stderr r) (shown_output r),
                  ssh_log := ssh_log w @ map (Pair conn) cmds\<rparr>)
           | (Inl e, cmds) \<Rightarrow>
               (Failure (VerifyFailed (message e)),
                w\<lparr>store := recordAttempt (store w) (u_id u) qid False [] (message e) [],
                  ssh_log := ssh_log w @ map (Pair conn) cmds\<rparr>)))"
  using assms by (simp add: student_verify_def)

lemma getStudentVmConn_progress [simp]:
  "getStudentVmConn ev (d\<lparr>progress_rows := p\<rparr>) sid = getStudentVmConn ev d sid"
  by (simp add: getStudentVmConn_def getVmAssignment_def)

lemma getQuestion_progress [simp]:
  "getQuestion (d\<lparr>progress_rows := p\<rparr>) qid = getQuestion d qid"
  by (simp add: getQuestion_def)

lemma recordAttempt_attempts:
  "attempts (recordAttempt d sid qid p out err output)
     = attempts d @ [\<lparr>at_student_id = sid, at_question_id = qid, passed = p, at_stdout = out,
                      at_stderr = err, at_output = output\<rparr>]"
  by (simp add: recordAttempt_def)

lemma dry_run_nonempty: "MSG_DRY_RUN_ATTEMPT \<noteq> []"
  by (simp add: MSG_DRY_RUN_ATTEMPT_def)

text \<open>
  C5, as the code has it. \<open>verify\<close> never reads Progress: its reply, the commands it
  sends and the attempts on record afterwards are the same whatever the Progress table
  holds. For a student it answers "no such exercise" exactly when no exercise has the
  given id; for an existing exercise and a resolvable connection it runs that exercise's
  check script, current or not.
\<close>

theorem verify_ignores_progress:
  "fst (student_verify ev session_user qid (w\<lparr>store := (store w)\<lparr>progress_rows := p\<rparr>\<rparr>))
     = fst (student_verify ev session_user qid w)
   \<and> ssh_log (snd (student_verify ev session_user qid (w\<lparr>store := (store w)\<lparr>progress_rows := p\<rparr>\<rparr>)))
     = ssh_log (snd (student_verify ev session_user qid w))
   \<and> attempts (store (snd (student_verify ev session_user qid
         (w\<lparr>store := (store w)\<lparr>progress_rows := p\<rparr>\<rparr>))))
     = attempts (store (snd (student_verify ev session_user qid w)))
   \<and> (authorize ''student'' session_user = Inr u \<longrightarrow>
        (fst (student_verify ev session_user qid w) = Failure QuestionNotFound
           \<longleftrightarrow> getQuestion (store w) qid = None)
        \<and> (\<forall>q conn. getQuestion (store w) qid = Some q
              \<longrightarrow> getStudentVmConn ev (store w) (u_id u) = Some conn
              \<longrightarrow> ssh_log (snd (student_verify ev session_user qid w))
                  = ssh_log w @ map (Pair conn)
                      (snd (executeScript (run_ssh ev) (date_now ev) (Some conn)
                              (check_script q) (check_path q) ''check''))))"
proof (intro conjI impI allI)
  show "fst (student_verify ev session_user qid (w\<lparr>store := (store w)\<lparr>progress_rows := p\<rparr>\<rparr>))
     = fst (student_verify ev session_user qid w)"
    by (simp add: student_verify_def split: sum.splits option.splits prod.splits)
  show "ssh_log (snd (student_verify ev session_user qid (w\<lparr>store := (store w)\<lparr>progress_rows := p\<rparr>\<rparr>)))
     = ssh_log (snd (student_verify ev session_user qid w))"
    by (simp add: student_verify_def split: sum.splits option.splits prod.splits)
  show "attempts (store (snd (student_verify ev session_user qid
         (w\<lparr>store := (store w)\<lparr>progress_rows := p\<rparr>\<rparr>))))
     = attempts (store (snd (student_verify ev session_user qid w)))"
    by (simp add: student_verify_def recordAttempt_def split: sum.splits option.splits prod.splits)
next
  assume a: "authorize ''student'' session_user = Inr u"
  show "fst (student_verify ev session_user qid w) = Failure QuestionNotFound
           \<longleftrightarrow> getQuestion (store w) qid = None"
    using a by (simp add: student_verify_def split: sum.splits option.splits prod.splits)
next
  fix q conn
  assume "authorize ''student'' session_user = Inr u"
    and "getQuestion (store w) qid = Some q"
    and "getStudentVmConn ev (store w) (u_id u) = Some conn"
  then show "ssh_log (snd (student_verify ev session_user qid w))
                  = ssh_log w @ map (Pair conn)
                      (snd (executeScript (run_ssh ev) (date_now ev) (Some conn)
                              (check_script q) (check_path q) ''check''))"
    by (simp add: student_verify_existing split: sum.splits prod.splits)
qed

text \<open>
  C6, as the code has it. A student's \<open>verify\<close> of an existing exercise leaves Progress as
  it is and appends exactly one attempt, for that student and exercise. If the check
  script ran, the attempt has \<open>passed\<close> exactly when the exit code is 0 and carries the
  script's stdout and stderr and the trimmed output. If the executor failed, it has
  \<open>passed = false\<close>, empty stdout and empty output, with the error message as stderr. If
  no connection can be resolved, it has \<open>passed = false\<close>, empty stdout and stderr, and the
  fixed dry-run note as output.
\<close>

theorem verify_records_one_attempt:
  assumes "authorize ''student'' session_user = Inr u"
    and "getQuestion (store w) qid = Some q"
  shows "progress_rows (store (snd (student_verify ev session_user qid w))) = progress_rows (store w)
    \<and> (\<exists>a. attempts (store (snd (student_verify ev session_user qid w))) = attempts (store w) @ [a]
          \<and> at_student_id a = u_id u \<and> at_question_id a = qid
          \<and> (case getStudentVmConn ev (store w) (u_id u) of
                None \<Rightarrow>
                  \<not> passed a \<and> at_stdout a = [] \<and> at_stderr a = []
                  \<and> at_output a = MSG_DRY_RUN_ATTEMPT
              | Some conn \<Rightarrow>
                  (case fst (executeScript (run_ssh ev) (date_now ev) (Some conn)
                               (check_script q) (check_path q) ''check'') of
                     Inr r \<Rightarrow>
                       (passed a \<longleftrightarrow> code r = 0) \<and> at_stdout a = stdout r
                       \<and> at_stderr a = stderr r \<and> at_output a = shown_output r
                   | Inl e \<Rightarrow>
                       \<not> passed a \<and> at_stdout a = [] \<and> at_stderr a = message e
                       \<and> at_output a = [])))"
  unfolding student_verify_existing[OF assms]
  by (simp add: recordAttempt_attempts split: option.splits sum.splits prod.splits)

text \<open>Alice verifies exercises on the sample target.\<close>

lemma alice_id: "u_id alice = 7"
  by (simp add: alice_def)

lemma sample_check_E2:
  "executeScript sample_ssh sample_now (Some sample_conn) (check_script E2) (check_path E2) ''check''
     = (Inr \<lparr>code = 0, stdout = ''done'', stderr = []\<rparr>, [''sudo /opt/checks/c2.sh''])"
  by (simp add: executeScript_def executeScript_try_def E2_def truthy_def str_def sudoCmd_def
        sample_run startsWith_def)

lemma sample_check_E1:
  "executeScript sample_ssh sample_now (Some sample_conn) (check_script E1) (check_path E1) ''check''
     = (Inr \<lparr>code = 0, stdout = ''done'', stderr = []\<rparr>,
        [writeCmd ''/tmp/check_1700000000000.sh'' ''systemctl is-active nginx'',
         ''chmod +x /tmp/check_1700000000000.sh'', ''sudo /tmp/check_1700000000000.sh'',
         ''rm -f /tmp/check_1700000000000.sh''])"
  by (simp add: executeScript_def executeScript_try_def truthy_def str_def sample_path E1_def
        Let_def sample_run writeCmd_def chmodCmd_def sudoCmd_def rmCmd_def startsWith_def)

lemma sample_shown: "shown_output \<lparr>code = 0, stdout = ''done'', stderr = []\<rparr> = ''done''"
  by (rule shown_done)

lemma active_question: "getQuestion (store (active_world q atts)) 2 = Some E2"
  "getQuestion (store (active_world q atts)) 1 = Some E1"
  by (simp_all add: getQuestion_def active_world_def fresh_db_def E1_def E2_def)

lemma sample_verify_E2:
  "student_verify sample_env (Some alice) 2 (active_world q atts)
     = (VerifyReply True ''done'',
        (active_world q atts)
          \<lparr>store := recordAttempt (store (active_world q atts)) 7 2 True ''done'' [] ''done'',
           ssh_log := [(sample_conn, ''sudo /opt/checks/c2.sh'')]\<rparr>)"
  unfolding student_verify_existing[OF alice_student active_question(1)] alice_id alice_conn
    sample_env_fields option.case sample_check_E2
  by (simp add: sample_shown) (simp add: active_world_def)

text \<open>
  C5 as stated fails: Alice's current exercise is 1, she verifies exercise 2, and the
  check script of exercise 2 is run on her VM and a passed attempt is recorded.
\<close>

theorem verify_runs_other_exercise:
  "current_qid (getProgress (store (active_world 1 [])) 7) = Some 1
   \<and> student_verify sample_env (Some alice) 2 (active_world 1 [])
     = (VerifyReply True ''done'',
        (active_world 1 [])
          \<lparr>store := recordAttempt (store (active_world 1 [])) 7 2 True ''done'' [] ''done'',
           ssh_log := [(sample_conn, ''sudo /opt/checks/c2.sh'')]\<rparr>)"
  by (simp only: active_progress sample_verify_E2 progress.simps simp_thms)

theorem verify_ignores_progress_witness:
  "fst (student_verify sample_env (Some alice) 2 (active_world 1 []))
     = fst (student_verify sample_env (Some alice) 2 (active_world 2 []))
   \<and> ssh_log (snd (student_verify sample_env (Some alice) 2 (active_world 1 [])))
     = [(sample_conn, ''sudo /opt/checks/c2.sh'')]"
proof -
  have w: "(active_world 1 [])\<lparr>store := (store (active_world 1 []))
              \<lparr>progress_rows := progress_rows (store (active_world 2 []))\<rparr>\<rparr> = active_world 2 []"
    by (simp add: active_world_def)
  have log: "ssh_log (active_world 1 []) = []" by (simp add: active_world_def)
  note inst = verify_ignores_progress [where ev = sample_env and session_user = "Some alice"
      and qid = 2 and w = "active_world 1 []" and u = alice
      and p = "progress_rows (store (active_world 2 []))"]
  from inst [THEN conjunct1]
       inst [THEN conjunct2, THEN conjunct2, THEN conjunct2, rule_format, OF alice_student,
         THEN conjunct2, rule_format, OF active_question(1), of sample_conn]
  show ?thesis
    unfolding w alice_id alice_conn sample_env_fields sample_check_E2 log
    by simp
qed

lemma fresh_no_conn: "getStudentVmConn sample_env (store fresh_world) 7 = None"
  by (simp add: getStudentVmConn_def getVmAssignment_def fresh_world_def fresh_db_def)

lemma fresh_question: "getQuestion (store fresh_world) 1 = Some E1"
  by (simp add: getQuestion_def fresh_world_def fresh_db_def E1_def E2_def)

text \<open>
  C6 as stated fails where no connection can be resolved: the attempt recorded then
  carries the dry-run note as its output, not the empty string.
\<close>

theorem verify_without_connection_output:
  "getStudentVmConn sample_env (store fresh_world) 7 = None
   \<and> attempts (store (snd (student_verify sample_env (Some alice) 1 fresh_world)))
       = [\<lparr>at_student_id = 7, at_question_id = 1, passed = False, at_stdout = [],
            at_stderr = [], at_output = MSG_DRY_RUN_ATTEMPT\<rparr>]
   \<and> MSG_DRY_RUN_ATTEMPT \<noteq> []"
  unfolding student_verify_existing[OF alice_student fresh_question] alice_id fresh_no_conn
    option.case
  by (simp add: recordAttempt_attempts dry_run_nonempty) (simp add: fresh_world_def fresh_db_def)

theorem verify_records_one_attempt_witness:
  "attempts (store (snd (student_verify sample_env (Some alice) 1 (active_world 1 []))))
     = [pass_of 1]
   \<and> progress_rows (store (snd (student_verify sample_env (Some alice) 1 (active_world 1 []))))
     = progress_rows (store (active_world 1 []))"
proof -
  have at: "attempts (store (active_world 1 [])) = []" by (simp add: active_world_def)
  from verify_records_one_attempt [OF alice_student active_question(2),
         where ev = sample_env and q1 = 1 and atts1 = "[]"]
  obtain a where "attempts (store (snd (student_verify sample_env (Some alice) 1
          (active_world 1 [])))) = [a]"
     and "at_student_id a = 7" "at_question_id a = 1" "passed a" "at_stdout a = ''done''"
         "at_stderr a = []" "at_output a = ''done''"
     and "progress_rows (store (snd (student_verify sample_env (Some alice) 1 (active_world 1 []))))
           = progress_rows (store (active_world 1 []))"
    unfolding alice_id alice_conn sample_env_fields option.case sample_check_E1 at
    by (auto simp: sample_shown)
  then show ?thesis by (cases a) (simp add: pass_of_def)
qed

section \<open>Properties of the login\<close>

lemma startsWith_iff: "startsWith s t \<longleftrightarrow> (\<exists>post. s = t @ post)"
proof
  assume "startsWith s t"
  then have "s = t @ drop (length t) s"
    unfolding startsWith_def by (metis append_take_drop_id)
  then show "\<exists>post. s = t @ post" ..
next
  assume "\<exists>post. s = t @ post"
  then show "startsWith s t" by (auto simp: startsWith_def)
qed

lemma includes_str_iff: "includes_str s t \<longleftrightarrow> (\<exists>pre post. s = pre @ t @ post)"
proof (induction s)
  case Nil
  show ?case by auto
next
  case (Cons c cs)
  have "(\<exists>pre post. c # cs = pre @ t @ post)
        \<longleftrightarrow> (\<exists>post. c # cs = t @ post) \<or> (\<exists>pre post. cs = pre @ t @ post)"
  proof
    assume "\<exists>pre post. c # cs = pre @ t @ post"
    then obtain pre post where e: "c # cs = pre @ t @ post" by blast
    show "(\<exists>post. c # cs = t @ post) \<or> (\<exists>pre post. cs = pre @ t @ post)"
    proof (cases pre)
      case Nil
      with e show ?thesis by auto
    next
      case (Cons p ps)
      with e have "cs = ps @ t @ post" by simp
      then show ?thesis by blast
    qed
  next
    assume "(\<exists>post. c # cs = t @ post) \<or> (\<exists>pre post. cs = pre @ t @ post)"
    then show "\<exists>pre post. c # cs = pre @ t @ post"
    proof
      assume "\<exists>post. c # cs = t @ post"
      then obtain post where "c # cs = [] @ t @ post" by auto
      then show ?thesis by blast
    next
      assume "\<exists>pre post. cs = pre @ t @ post"
      then obtain pre post where "c # cs = (c # pre) @ t @ post" by auto
      then show ?thesis by blast
    qed
  qed
  with Cons show ?case by (simp add: startsWith_iff)
qed

lemma role_for_teacher:
  "role_for name = ''teacher'' \<longleftrightarrow> (\<exists>pre post. name = pre @ ''teacher'' @ post)"
  by (simp add: role_for_def includes_str_iff)

lemma role_for_cases: "role_for name = ''teacher'' \<or> role_for name = ''student''"
  by (simp add: role_for_def)

lemma getOrCreateUser_known:
  "find (\<lambda>x. u_username x = name) (users d) = Some u \<Longrightarrow> getOrCreateUser d name r = (u, d)"
  by (simp add: getOrCreateUser_def)

lemma getOrCreateUser_unknown:
  "find (\<lambda>x. u_username x = name) (users d) = None \<Longrightarrow>
   \<exists>u. getOrCreateUser d name r = (u, d\<lparr>users := users d @ [u]\<rparr>)
       \<and> u_role u = r \<and> u_username u = name"
  by (simp add: getOrCreateUser_def Let_def)

lemma find_username: "find (\<lambda>x. u_username x = name) xs = Some u \<Longrightarrow> u \<in> set xs \<and> u_username u = name"
  by (auto simp: find_Some_iff)

text \<open>The login of a non-empty name always succeeds; who is logged in and what is stored.\<close>

lemma auth_login_cases:
  assumes "truthy body_username"
  shows "(\<exists>u. find (\<lambda>x. u_username x = str body_username) (users d) = Some u
            \<and> auth_login body_username session_user d = (LoginReply u, Some u, d))
       \<or> (\<exists>u. find (\<lambda>x. u_username x = str body_username) (users d) = None
            \<and> auth_login body_username session_user d
                = (LoginReply u, Some u, d\<lparr>users := users d @ [u]\<rparr>)
            \<and> u_role u = role_for (str body_username)
            \<and> u_username u = str body_username)"
proof (cases "find (\<lambda>x. u_username x = str body_username) (users d)")
  case None
  from getOrCreateUser_unknown[OF None, of "role_for (str body_username)"] None assms
  show ?thesis by (auto simp: auth_login_def Let_def)
next
  case (Some u)
  from getOrCreateUser_known[OF Some, of "role_for (str body_username)"] Some assms
  show ?thesis by (auto simp: auth_login_def Let_def)
qed

text \<open>
  C9. A login with a non-empty username always succeeds. A username with no row yet gets
  a new row whose role is \<open>teacher\<close> if the name contains \<^verbatim>\<open>teacher\<close> and \<open>student\<close>
  otherwise. Where every stored role was assigned by this rule (true of the empty table
  and kept by every login), the logged-in role is \<open>teacher\<close> exactly when the supplied
  name contains \<^verbatim>\<open>teacher\<close>, and \<open>student\<close> otherwise; so a session opened under any name
  that contains \<^verbatim>\<open>teacher\<close> passes \<open>requireRole('teacher')\<close>.
\<close>

theorem login_role_from_username:
  assumes "truthy body_username"
  shows "(find (\<lambda>x. u_username x = str body_username) (users d) = None \<longrightarrow>
           (\<exists>u. auth_login body_username session_user d
                  = (LoginReply u, Some u, d\<lparr>users := users d @ [u]\<rparr>)
                \<and> u_username u = str body_username
                \<and> u_role u = role_for (str body_username)))
    \<and> (roles_by_name d \<longrightarrow>
           (\<exists>u d'. auth_login body_username session_user d = (LoginReply u, Some u, d')
                \<and> u_username u = str body_username
                \<and> (u_role u = ''teacher''
                     \<longleftrightarrow> (\<exists>pre post. str body_username = pre @ ''teacher'' @ post))
                \<and> (u_role u = ''teacher'' \<or> u_role u = ''student'')
                \<and> ((\<exists>pre post. str body_username = pre @ ''teacher'' @ post)
                     \<longrightarrow> authorize ''teacher'' (Some u) = Inr u)
                \<and> roles_by_name d'))"
proof (intro conjI impI)
  assume "find (\<lambda>x. u_username x = str body_username) (users d) = None"
  with auth_login_cases[OF assms, of d session_user]
  show "\<exists>u. auth_login body_username session_user d
                  = (LoginReply u, Some u, d\<lparr>users := users d @ [u]\<rparr>)
                \<and> u_username u = str body_username
                \<and> u_role u = role_for (str body_username)"
    by auto
next
  assume inv: "roles_by_name d"
  from auth_login_cases[OF assms, of d session_user]
  obtain u d' where l: "auth_login body_username session_user d = (LoginReply u, Some u, d')"
    and n: "u_username u = str body_username"
    and r: "u_role u = role_for (str body_username)"
    and d': "d' = d \<or> d' = d\<lparr>users := users d @ [u]\<rparr>"
  proof (elim disjE exE conjE)
    fix u assume f: "find (\<lambda>x. u_username x = str body_username) (users d) = Some u"
      and a: "auth_login body_username session_user d = (LoginReply u, Some u, d)"
    from find_username[OF f] inv have "u_username u = str body_username"
      "u_role u = role_for (str body_username)"
      by (auto simp: roles_by_name_def list_all_iff)
    with a that show thesis by blast
  next
    fix u assume "auth_login body_username session_user d
                = (LoginReply u, Some u, d\<lparr>users := users d @ [u]\<rparr>)"
      "u_role u = role_for (str body_username)" "u_username u = str body_username"
    with that show thesis by blast
  qed
  have inv': "roles_by_name d'"
    using d' inv n r by (auto simp: roles_by_name_def)
  have t: "u_role u = ''teacher'' \<longleftrightarrow> (\<exists>pre post. str body_username = pre @ ''teacher'' @ post)"
    using r by (simp add: role_for_teacher)
  have c: "u_role u = ''teacher'' \<or> u_role u = ''student''"
    using r role_for_cases[of "str body_username"] by simp
  have p: "(\<exists>pre post. str body_username = pre @ ''teacher'' @ post)
             \<longrightarrow> authorize ''teacher'' (Some u) = Inr u"
    using t by (simp add: authorize_def)
  from l n t c p inv'
  show "\<exists>u d'. auth_login body_username session_user d = (LoginReply u, Some u, d')
                \<and> u_username u = str body_username
                \<and> (u_role u = ''teacher''
                     \<longleftrightarrow> (\<exists>pre post. str body_username = pre @ ''teacher'' @ post))
                \<and> (u_role u = ''teacher'' \<or> u_role u = ''student'')
                \<and> ((\<exists>pre post. str body_username = pre @ ''teacher'' @ post)
                     \<longrightarrow> authorize ''teacher'' (Some u) = Inr u)
                \<and> roles_by_name d'"
    by blast
qed

text \<open>A new name that contains \<^verbatim>\<open>teacher\<close>, and Alice's.\<close>

theorem login_role_from_username_witness:
  "fst (auth_login (Some ''not-a-teacher'') None fresh_db)
     = LoginReply \<lparr>u_id = 8, u_role = ''teacher'', u_username = ''not-a-teacher''\<rparr>
   \<and> authorize ''teacher'' (fst (snd (auth_login (Some ''not-a-teacher'') None fresh_db)))
     = Inr \<lparr>u_id = 8, u_role = ''teacher'', u_username = ''not-a-teacher''\<rparr>
   \<and> fst (auth_login (Some ''alice'') None fresh_db) = LoginReply alice"
proof -
  have t: "truthy (Some ''not-a-teacher'')" "truthy (Some ''alice'')" by (simp_all add: truthy_def)
  have inv: "roles_by_name fresh_db"
    by (simp add: roles_by_name_def fresh_db_def alice_def role_for_def startsWith_def)
  have new: "find (\<lambda>x. u_username x = str (Some ''not-a-teacher'')) (users fresh_db) = None"
    by (simp add: fresh_db_def alice_def str_def)
  have sub: "\<exists>pre post. str (Some ''not-a-teacher'') = pre @ ''teacher'' @ post"
    by (intro exI[of _ "''not-a-''"] exI[of _ "[]"]) (simp add: str_def)
  from login_role_from_username [OF t(1), of fresh_db None, THEN conjunct2, rule_format, OF inv]
  obtain u d' where l: "auth_login (Some ''not-a-teacher'') None fresh_db = (LoginReply u, Some u, d')"
    and r: "u_role u = ''teacher''" "u_username u = ''not-a-teacher''"
    and a: "authorize ''teacher'' (Some u) = Inr u"
    using sub by (auto simp: str_def)
  have id: "u_id u = 8" using l
    by (auto simp: auth_login_def t getOrCreateUser_def fresh_db_def alice_def str_def Let_def)
  from r id have u: "u = \<lparr>u_id = 8, u_role = ''teacher'', u_username = ''not-a-teacher''\<rparr>"
    by (cases u) simp
  from login_role_from_username [OF t(2), of fresh_db None, THEN conjunct2, rule_format, OF inv]
  obtain v e where l2: "auth_login (Some ''alice'') None fresh_db = (LoginReply v, Some v, e)"
    by blast
  then have "v = alice"
    by (simp add: auth_login_def t getOrCreateUser_def fresh_db_def alice_def str_def Let_def)
  with l l2 a u show ?thesis by simp
qed

end
